theory Spec2Isabelle
  imports Main
begin

section \<open>ElizaClient: session manager and message correlation\<close>

text \<open>
  A shallow embedding of the class \<open>ElizaClient\<close>. The object's private fields are the
  first eleven fields of the record \<open>ElizaClient\<close>; the remaining fields are the part of
  the JavaScript runtime and of the socket transport that the class talks to: the
  \<open>connected\<close> flag of every socket object created by \<open>io(...)\<close>, what was written to the
  transport, which observer callbacks were invoked, the promises handed out to callers and
  the timers started with \<open>setTimeout\<close>.

  Logging is not modelled. Observer callbacks are taken to be plain observers: they do not
  call back into the client, and an exception they raise is caught by the client (the
  \<open>try/catch\<close> around each invocation), so only the fact of the invocation is recorded.
  Strings are \<open>char list\<close>; times and durations are milliseconds.
\<close>

subsection \<open>Data model (types.ts)\<close>

datatype ConnectionState = DISCONNECTED | CONNECTING | CONNECTED | ERROR

record ElizaClientConfig =
  agentId :: string
  userId :: string
  roomId :: string
  worldId :: string
  serverUrl :: string
  connectionTimeout :: nat
  responseTimeout :: nat

text \<open>
  \<open>Partial<ElizaClientConfig>\<close>: every key may be absent. The same shape is the optional
  argument of the constructor.
\<close>

record PartialConfig =
  agentId_opt :: "string option"
  userId_opt :: "string option"
  roomId_opt :: "string option"
  worldId_opt :: "string option"
  serverUrl_opt :: "string option"
  connectionTimeout_opt :: "nat option"
  responseTimeout_opt :: "nat option"

text \<open>
  \<open>AgentResponseMessage\<close>: the fields the client reads or writes. \<open>senderId\<close> comes through
  the index signature; \<open>payload\<close> is the pair (\<open>message.error\<close>, \<open>requestId\<close>) of the
  error-shaped results the client builds itself.
\<close>

record AgentResponseMessage =
  id_m :: "string option"
  text_m :: "string option"
  senderId :: "string option"
  error :: "string option"
  status :: "string option"
  payload :: "(string \<times> string) option"

text \<open>
  \<open>SocketMessage\<close>. \<open>ROOM_JOINING roomId agentIds\<close>;
  \<open>SEND_MESSAGE senderId senderName message roomId agentId worldId messageId source\<close>.
\<close>

datatype SocketMessage =
    ROOM_JOINING string "string list"
  | SEND_MESSAGE string string string string string string string string

text \<open>The \<open>Error\<close> objects the client throws or rejects with.\<close>

datatype Error =
    NotConfigured            \<comment> \<open>Agent ID and Room ID must be set before connecting\<close>
  | NotIdentical             \<comment> \<open>Agent ID and Room ID must be identical for connection.\<close>
  | SwitchNotIdentical       \<comment> \<open>Switching agent failed: newAgentId and newRoomId must be identical.\<close>
  | ConnectionTimeout nat    \<comment> \<open>Connection timeout after \<open>n\<close> ms\<close>
  | ReconnectExhausted       \<comment> \<open>Failed to reconnect to ElizaOS server after multiple attempts\<close>
  | IoFailure string         \<comment> \<open>whatever \<open>io(...)\<close> threw\<close>
  | QueueInconsistency       \<comment> \<open>Filtered message queue inconsistency\<close>
  | WaitTimeout string nat   \<comment> \<open>Timeout waiting for a VALID TEXTUAL response from agent \<open>a\<close> after \<open>n\<close> ms\<close>
  | NotEstablished           \<comment> \<open>Cannot send message, connection not established.\<close>
  | SocketNotInitialized     \<comment> \<open>Socket is not initialized\<close>

subsection \<open>Runtime: promises, timers, transport\<close>

datatype 'a promise = Pending | Fulfilled 'a | Failed Error

text \<open>
  A pending caller in \<open>this.resolvers\<close>: the closure \<open>resolverWrapper\<close>. Closures are compared
  by identity in the source; here the first component is that identity (the number of the
  promise the closure settles) and the second is what the closure's timer callback captured:
  \<open>waitTimeout\<close> in \<open>waitForNextMessage\<close>, \<open>messageId\<close> in \<open>sendMessageAndGetResponse\<close>.
\<close>

datatype captured = WaitNext nat | SendAwait string

type_synonym waiter = "nat \<times> captured"

text \<open>What happened at the boundary: transport calls and observer invocations.\<close>

datatype effect =
    Open nat string            \<comment> \<open>\<open>io(serverUrl, ...)\<close> created socket \<open>k\<close>\<close>
  | Emit nat SocketMessage     \<comment> \<open>\<open>socket.emit('message', m)\<close> on socket \<open>k\<close>\<close>
  | Close nat                  \<comment> \<open>\<open>socket.disconnect()\<close> on socket \<open>k\<close>\<close>

datatype call =
    MsgCall nat AgentResponseMessage
  | StateCall nat ConnectionState
  | ErrCall nat Error

record ElizaClient =
  socket :: "nat option"
  config :: ElizaClientConfig
  connectionState :: ConnectionState
  connectionStartTime :: int
  connectionTime :: int
  roomJoined :: bool
  messageListeners :: "nat list"
  stateChangeListeners :: "nat list"
  errorListeners :: "nat list"
  messageQueue :: "AgentResponseMessage list"
  resolvers :: "waiter list"
  connected :: "nat \<Rightarrow> bool"
  sockets :: nat
  wire :: "effect list"
  calls :: "call list"
  promises :: "nat \<Rightarrow> AgentResponseMessage promise"
  timers :: "nat \<Rightarrow> captured option"
  nextWaiter :: nat
  connPromises :: "nat \<Rightarrow> bool promise"
  connTimers :: "nat \<Rightarrow> bool"

text \<open>The constructor, with its defaults (\<open>x || default\<close>).\<close>

definition orEmpty :: "string option \<Rightarrow> string" where
  "orEmpty x = (case x of None \<Rightarrow> [] | Some v \<Rightarrow> v)"

definition orDefault :: "nat option \<Rightarrow> nat \<Rightarrow> nat" where
  "orDefault x d = (case x of None \<Rightarrow> d | Some v \<Rightarrow> if v = 0 then d else v)"

definition constructor :: "PartialConfig \<Rightarrow> ElizaClient" where
  "constructor p =
     \<lparr> socket = None,
       config = \<lparr> agentId = orEmpty (agentId_opt p), userId = orEmpty (userId_opt p),
                  roomId = orEmpty (roomId_opt p), worldId = orEmpty (worldId_opt p),
                  serverUrl = orEmpty (serverUrl_opt p),
                  connectionTimeout = orDefault (connectionTimeout_opt p) 120000,
                  responseTimeout = orDefault (responseTimeout_opt p) 90000 \<rparr>,
       connectionState = DISCONNECTED,
       connectionStartTime = 0,
       connectionTime = 0,
       roomJoined = False,
       messageListeners = [],
       stateChangeListeners = [],
       errorListeners = [],
       messageQueue = [],
       resolvers = [],
       connected = (\<lambda>_. False),
       sockets = 0,
       wire = [],
       calls = [],
       promises = (\<lambda>_. Pending),
       timers = (\<lambda>_. None),
       nextWaiter = 0,
       connPromises = (\<lambda>_. Pending),
       connTimers = (\<lambda>_. False) \<rparr>"

text \<open>\<open>resolve\<close> and \<open>reject\<close> of a promise: only the first settlement counts.\<close>

definition resolve :: "nat \<Rightarrow> AgentResponseMessage \<Rightarrow> ElizaClient \<Rightarrow> ElizaClient" where
  "resolve w m s =
     (if promises s w = Pending then s\<lparr>promises := (promises s)(w := Fulfilled m)\<rparr> else s)"

definition reject :: "nat \<Rightarrow> Error \<Rightarrow> ElizaClient \<Rightarrow> ElizaClient" where
  "reject w e s =
     (if promises s w = Pending then s\<lparr>promises := (promises s)(w := Failed e)\<rparr> else s)"

definition resolveConnect :: "nat \<Rightarrow> ElizaClient \<Rightarrow> ElizaClient" where
  "resolveConnect k s =
     (if connPromises s k = Pending
      then s\<lparr>connPromises := (connPromises s)(k := Fulfilled True)\<rparr> else s)"

definition rejectConnect :: "nat \<Rightarrow> Error \<Rightarrow> ElizaClient \<Rightarrow> ElizaClient" where
  "rejectConnect k e s =
     (if connPromises s k = Pending
      then s\<lparr>connPromises := (connPromises s)(k := Failed e)\<rparr> else s)"

text \<open>\<open>this.socket?.connected\<close>\<close>

definition socketConnected :: "ElizaClient \<Rightarrow> bool" where
  "socketConnected s = (case socket s of None \<Rightarrow> False | Some k \<Rightarrow> connected s k)"

text \<open>\<open>this.socket.emit('message', m)\<close>, for a socket that is not \<open>null\<close>.\<close>

definition emit :: "SocketMessage \<Rightarrow> ElizaClient \<Rightarrow> ElizaClient" where
  "emit m s = (case socket s of None \<Rightarrow> s | Some k \<Rightarrow> s\<lparr>wire := wire s @ [Emit k m]\<rparr>)"

subsection \<open>State changes and errors\<close>

definition updateState :: "ConnectionState \<Rightarrow> ElizaClient \<Rightarrow> ElizaClient" where
  "updateState st s =
     (if connectionState s = st then s
      else s\<lparr>connectionState := st,
             calls := calls s @ map (\<lambda>l. StateCall l st) (stateChangeListeners s)\<rparr>)"

definition handleError :: "Error \<Rightarrow> ElizaClient \<Rightarrow> ElizaClient" where
  "handleError e s =
     (let s1 = updateState ERROR s
      in s1\<lparr>calls := calls s1 @ map (\<lambda>l. ErrCall l e) (errorListeners s1)\<rparr>)"

subsection \<open>Inbound correlation\<close>

text \<open>
  \<open>String.prototype.trim\<close> on the characters of the model's character type: the white
  space and line terminators of ECMAScript below U+0100.
\<close>

definition isWhite :: "char \<Rightarrow> bool" where
  "isWhite c = (of_char c \<in> {9, 10, 11, 12, 13, 32, 160 :: nat})"

definition trim :: "string \<Rightarrow> string" where
  "trim t = rev (dropWhile isWhite (rev (dropWhile isWhite t)))"

text \<open>
  The test of \<open>notifyMessageListeners\<close>:
  \<open>data.text && data.text.trim() !== '' && data.senderId === this.config.agentId\<close>.
\<close>

definition validReply :: "ElizaClient \<Rightarrow> AgentResponseMessage \<Rightarrow> bool" where
  "validReply s data =
     (case text_m data of
        None \<Rightarrow> False
      | Some t \<Rightarrow> t \<noteq> [] \<and> trim t \<noteq> [] \<and> senderId data = Some (agentId (config s)))"

text \<open>
  Calling a \<open>resolverWrapper\<close>. Both kinds clear their timer and resolve their promise:
  in \<open>waitForNextMessage\<close> the variable \<open>timer\<close> is set right after the closure is pushed,
  before any event can run; in \<open>sendMessageAndGetResponse\<close> the argument is an object, so
  the test \<open>if (response)\<close> succeeds.
\<close>

definition callResolver :: "waiter \<Rightarrow> AgentResponseMessage \<Rightarrow> ElizaClient \<Rightarrow> ElizaClient" where
  "callResolver r m s = resolve (fst r) m (s\<lparr>timers := (timers s)(fst r := None)\<rparr>)"

text \<open>
  The drain loop:
  \<open>while (resolvers.length > 0 && messageQueue.length > 0) { shift both; resolver(message) }\<close>
\<close>

function drain :: "ElizaClient \<Rightarrow> ElizaClient" where
  "drain s =
     (case resolvers s of
        [] \<Rightarrow> s
      | r # rs \<Rightarrow>
          (case messageQueue s of
             [] \<Rightarrow> s
           | m # ms \<Rightarrow> drain (callResolver r m (s\<lparr>resolvers := rs, messageQueue := ms\<rparr>))))"
  by pat_completeness auto
termination
  by (relation "measure (\<lambda>s. length (resolvers s))")
     (auto simp: callResolver_def resolve_def)

declare drain.simps [simp del]

definition notifyMessageListeners :: "AgentResponseMessage \<Rightarrow> ElizaClient \<Rightarrow> ElizaClient" where
  "notifyMessageListeners data s =
     (let s1 = (if validReply s data
                then drain (s\<lparr>messageQueue := messageQueue s @ [data]\<rparr>)
                else s)
      in s1\<lparr>calls := calls s1 @ map (\<lambda>l. MsgCall l data) (messageListeners s1)\<rparr>)"

text \<open>\<open>timeout || this.config.responseTimeout\<close>\<close>

definition waitTimeoutOf :: "nat option \<Rightarrow> ElizaClient \<Rightarrow> nat" where
  "waitTimeoutOf timeout s = orDefault timeout (responseTimeout (config s))"

text \<open>
  \<open>waitForNextMessage\<close> returns a new promise; its number is the first component of the
  result. A queue that is not empty always yields its first element, so the branch that
  rejects with \<open>QueueInconsistency\<close> is not taken.
\<close>

definition waitForNextMessage :: "nat option \<Rightarrow> ElizaClient \<Rightarrow> nat \<times> ElizaClient" where
  "waitForNextMessage timeout s =
     (let w = nextWaiter s;
          s0 = s\<lparr>nextWaiter := w + 1, promises := (promises s)(w := Pending)\<rparr>
      in case messageQueue s0 of
           m # ms \<Rightarrow> (w, resolve w m (s0\<lparr>messageQueue := ms\<rparr>))
         | [] \<Rightarrow>
             (w, s0\<lparr>resolvers := resolvers s0 @ [(w, WaitNext (waitTimeoutOf timeout s))],
                    timers := (timers s0)(w \<mapsto> WaitNext (waitTimeoutOf timeout s))\<rparr>))"

subsection \<open>Waiter timers\<close>

text \<open>Decimal rendering of a number inside a template string.\<close>

fun showNat :: "nat \<Rightarrow> string" where
  "showNat n =
     (if n < 10 then [char_of (48 + n)]
      else showNat (n div 10) @ [char_of (48 + n mod 10)])"

declare showNat.simps [simp del]

text \<open>
  The error-shaped result
  \<open>{ payload: { message: { error }, requestId }, status: 'error', error }\<close>.
\<close>

definition errorResult :: "string \<Rightarrow> string \<Rightarrow> AgentResponseMessage" where
  "errorResult errorMsg requestId =
     \<lparr> id_m = None, text_m = None, senderId = None, error = Some errorMsg,
       status = Some ''error'', payload = Some (errorMsg, requestId) \<rparr>"

definition responseTimeoutMsg :: "nat \<Rightarrow> string \<Rightarrow> string" where
  "responseTimeoutMsg ms messageId =
     ''Response timeout after '' @ showNat ms @ ''ms for message ID '' @ messageId"

text \<open>
  The timer callback of \<open>waitForNextMessage\<close> (\<open>indexOf\<close>, \<open>splice\<close>, \<open>reject\<close>) for the
  waiter \<open>w\<close> with captured \<open>waitTimeout\<close>.
\<close>

definition waitTimeoutFired :: "nat \<Rightarrow> nat \<Rightarrow> ElizaClient \<Rightarrow> ElizaClient" where
  "waitTimeoutFired w waitTimeout s =
     (if (w, WaitNext waitTimeout) \<in> set (resolvers s)
      then reject w (WaitTimeout (agentId (config s)) waitTimeout)
             (s\<lparr>resolvers := remove1 (w, WaitNext waitTimeout) (resolvers s)\<rparr>)
      else s)"

text \<open>The timer callback of \<open>sendMessageAndGetResponse\<close> (\<open>filter\<close>, \<open>resolve\<close>).\<close>

definition responseTimeoutFired :: "nat \<Rightarrow> string \<Rightarrow> ElizaClient \<Rightarrow> ElizaClient" where
  "responseTimeoutFired w messageId s =
     resolve w
       (errorResult (responseTimeoutMsg (responseTimeout (config s)) messageId) messageId)
       (s\<lparr>resolvers := removeAll (w, SendAwait messageId) (resolvers s)\<rparr>)"

text \<open>
  The runtime runs the callback of a timer that is still armed, once; a timer that was
  cleared, or has already run, does nothing.
\<close>

definition fireTimer :: "nat \<Rightarrow> ElizaClient \<Rightarrow> ElizaClient" where
  "fireTimer w s =
     (case timers s w of
        None \<Rightarrow> s
      | Some (WaitNext waitTimeout) \<Rightarrow>
          waitTimeoutFired w waitTimeout (s\<lparr>timers := (timers s)(w := None)\<rparr>)
      | Some (SendAwait messageId) \<Rightarrow>
          responseTimeoutFired w messageId (s\<lparr>timers := (timers s)(w := None)\<rparr>))"

subsection \<open>Session lifecycle and channel membership\<close>

definition joinRoom :: "ElizaClient \<Rightarrow> ElizaClient" where
  "joinRoom s =
     (if \<not> socketConnected s then s
      else if roomJoined s then s
      else if roomId (config s) = [] \<or> agentId (config s) = [] then s
      else (emit (ROOM_JOINING (roomId (config s)) [agentId (config s)]) s)
             \<lparr>roomJoined := True\<rparr>)"

text \<open>
  What \<open>connect()\<close> hands back: an exception thrown before the promise is built, a promise
  already rejected because \<open>io(...)\<close> threw, \<open>true\<close>, or the pending promise of the new
  socket \<open>k\<close> (held in \<open>connPromises\<close>).
\<close>

datatype connect_result = Threw Error | Rejected Error | Returned bool | Awaiting nat

text \<open>
  \<open>connect()\<close> at time \<open>now\<close>. The argument \<open>io\<close> is what the transport library does when
  asked for a socket: \<open>None\<close> when it returns one, \<open>Some e\<close> when it throws \<open>e\<close>.
\<close>

definition connect :: "int \<Rightarrow> string option \<Rightarrow> ElizaClient \<Rightarrow> connect_result \<times> ElizaClient" where
  "connect now io s =
     (if socketConnected s then (Returned True, s)
      else if agentId (config s) = [] \<or> roomId (config s) = [] then (Threw NotConfigured, s)
      else if agentId (config s) \<noteq> roomId (config s) then (Threw NotIdentical, s)
      else
        (let s1 = updateState CONNECTING (s\<lparr>connectionStartTime := now\<rparr>)
         in case io of
              Some e \<Rightarrow> (Rejected (IoFailure e), handleError (IoFailure e) s1)
            | None \<Rightarrow>
                (let k = sockets s1
                 in (Awaiting k,
                     s1\<lparr>socket := Some k,
                        sockets := k + 1,
                        connected := (connected s1)(k := False),
                        wire := wire s1 @ [Open k (serverUrl (config s1))],
                        connPromises := (connPromises s1)(k := Pending),
                        connTimers := (connTimers s1)(k := True)\<rparr>))))"

text \<open>The handlers that \<open>connect()\<close> registers on socket \<open>k\<close>.\<close>

definition onConnect :: "nat \<Rightarrow> int \<Rightarrow> ElizaClient \<Rightarrow> ElizaClient" where
  "onConnect k now s =
     resolveConnect k
       (joinRoom
          (updateState CONNECTED
             (s\<lparr>connTimers := (connTimers s)(k := False),
                connectionTime := now - connectionStartTime s\<rparr>)))"

definition onConnectError :: "nat \<Rightarrow> ElizaClient \<Rightarrow> ElizaClient" where
  "onConnectError k s = s"

definition onReconnectAttempt :: "nat \<Rightarrow> nat \<Rightarrow> ElizaClient \<Rightarrow> ElizaClient" where
  "onReconnectAttempt k attemptNumber s = s"

definition onReconnectFailed :: "nat \<Rightarrow> ElizaClient \<Rightarrow> ElizaClient" where
  "onReconnectFailed k s = rejectConnect k ReconnectExhausted (handleError ReconnectExhausted s)"

definition onDisconnect :: "nat \<Rightarrow> string \<Rightarrow> ElizaClient \<Rightarrow> ElizaClient" where
  "onDisconnect k reason s = (updateState DISCONNECTED s)\<lparr>roomJoined := False\<rparr>"

definition onMessageBroadcast :: "nat \<Rightarrow> AgentResponseMessage \<Rightarrow> ElizaClient \<Rightarrow> ElizaClient" where
  "onMessageBroadcast k data s = notifyMessageListeners data s"

definition onMessageComplete :: "nat \<Rightarrow> ElizaClient \<Rightarrow> ElizaClient" where
  "onMessageComplete k s = s"

text \<open>The callback of the connection timer of socket \<open>k\<close>.\<close>

definition connectionTimeoutFired :: "nat \<Rightarrow> ElizaClient \<Rightarrow> ElizaClient" where
  "connectionTimeoutFired k s =
     (if connectionState s \<noteq> CONNECTED
      then rejectConnect k (ConnectionTimeout (connectionTimeout (config s)))
             (handleError (ConnectionTimeout (connectionTimeout (config s))) s)
      else s)"

text \<open>
  What the event loop delivers: the events of socket \<open>k\<close> and the two kinds of timer. The
  transport sets the socket's \<open>connected\<close> flag before it emits \<open>connect\<close> and clears it
  before it emits \<open>disconnect\<close>. A socket that was never created emits nothing.
\<close>

datatype event =
    Connect nat int
  | ConnectError nat
  | ReconnectAttempt nat nat
  | ReconnectFailed nat
  | Disconnect nat string
  | MessageBroadcast nat AgentResponseMessage
  | MessageComplete nat
  | ConnectionTimer nat
  | WaiterTimer nat

fun socketOf :: "event \<Rightarrow> nat option" where
  "socketOf (Connect k now) = Some k"
| "socketOf (ConnectError k) = Some k"
| "socketOf (ReconnectAttempt k n) = Some k"
| "socketOf (ReconnectFailed k) = Some k"
| "socketOf (Disconnect k reason) = Some k"
| "socketOf (MessageBroadcast k data) = Some k"
| "socketOf (MessageComplete k) = Some k"
| "socketOf (ConnectionTimer k) = None"
| "socketOf (WaiterTimer w) = None"

fun dispatch :: "event \<Rightarrow> ElizaClient \<Rightarrow> ElizaClient" where
  "dispatch (Connect k now) s = onConnect k now (s\<lparr>connected := (connected s)(k := True)\<rparr>)"
| "dispatch (ConnectError k) s = onConnectError k s"
| "dispatch (ReconnectAttempt k n) s = onReconnectAttempt k n s"
| "dispatch (ReconnectFailed k) s = onReconnectFailed k s"
| "dispatch (Disconnect k reason) s =
     onDisconnect k reason (s\<lparr>connected := (connected s)(k := False)\<rparr>)"
| "dispatch (MessageBroadcast k data) s = onMessageBroadcast k data s"
| "dispatch (MessageComplete k) s = onMessageComplete k s"
| "dispatch (ConnectionTimer k) s =
     (if connTimers s k
      then connectionTimeoutFired k (s\<lparr>connTimers := (connTimers s)(k := False)\<rparr>)
      else s)"
| "dispatch (WaiterTimer w) s = fireTimer w s"

definition handle :: "event \<Rightarrow> ElizaClient \<Rightarrow> ElizaClient" where
  "handle e s =
     (case socketOf e of
        Some k \<Rightarrow> if k < sockets s then dispatch e s else s
      | None \<Rightarrow> dispatch e s)"

fun run :: "event list \<Rightarrow> ElizaClient \<Rightarrow> ElizaClient" where
  "run [] s = s"
| "run (e # es) s = run es (handle e s)"

subsection \<open>Public operations\<close>

text \<open>
  \<open>disconnect()\<close> calls \<open>socket.disconnect()\<close> when there is a socket. What the transport
  does then is its own business, so it is a parameter: with \<open>ack = True\<close> a connected socket
  is closed at once and emits \<open>disconnect\<close> inside the call (the behaviour of the socket.io
  client); with \<open>ack = False\<close> nothing happens inside the call and the event, if any, is
  delivered later by the event loop. A socket that is not connected emits nothing.
\<close>

definition disconnect :: "bool \<Rightarrow> ElizaClient \<Rightarrow> ElizaClient" where
  "disconnect ack s =
     (case socket s of
        None \<Rightarrow> s
      | Some k \<Rightarrow>
          (let s1 = s\<lparr>wire := wire s @ [Close k]\<rparr>
           in if ack \<and> connected s1 k
              then onDisconnect k ''io client disconnect''
                     (s1\<lparr>connected := (connected s1)(k := False)\<rparr>)
              else s1))"

definition onMessage :: "nat \<Rightarrow> ElizaClient \<Rightarrow> ElizaClient" where
  "onMessage listener s = s\<lparr>messageListeners := messageListeners s @ [listener]\<rparr>"

definition onStateChange :: "nat \<Rightarrow> ElizaClient \<Rightarrow> ElizaClient" where
  "onStateChange listener s = s\<lparr>stateChangeListeners := stateChangeListeners s @ [listener]\<rparr>"

definition onError :: "nat \<Rightarrow> ElizaClient \<Rightarrow> ElizaClient" where
  "onError listener s = s\<lparr>errorListeners := errorListeners s @ [listener]\<rparr>"

text \<open>
  \<open>switchAgent\<close>, up to the call of \<open>connect()\<close>: the check, the disconnect with its 250 ms
  pause (\<open>grace\<close> is what the event loop delivers during the pause), and the assignments.
  The result is the exception, or the state in which \<open>connect()\<close> is then called.
\<close>

definition switchAgent_prepare ::
  "string \<Rightarrow> string \<Rightarrow> bool \<Rightarrow> event list \<Rightarrow> ElizaClient \<Rightarrow> Error + ElizaClient" where
  "switchAgent_prepare newAgentId newRoomId ack grace s =
     (if newAgentId \<noteq> newRoomId then Inl SwitchNotIdentical
      else
        (let s1 = (if socketConnected s then run grace (disconnect ack s) else s)
         in Inr (s1\<lparr>config := (config s1)\<lparr>agentId := newAgentId, roomId := newRoomId\<rparr>,
                    roomJoined := False,
                    messageQueue := [],
                    resolvers := []\<rparr>)))"

definition switchAgent ::
  "string \<Rightarrow> string \<Rightarrow> bool \<Rightarrow> event list \<Rightarrow> int \<Rightarrow> string option \<Rightarrow> ElizaClient
     \<Rightarrow> connect_result \<times> ElizaClient" where
  "switchAgent newAgentId newRoomId ack grace now io s =
     (case switchAgent_prepare newAgentId newRoomId ack grace s of
        Inl e \<Rightarrow> (Threw e, s)
      | Inr s2 \<Rightarrow> connect now io s2)"

text \<open>\<open>{ ...this.config, ...newConfigPartial }\<close>\<close>

definition mergeConfig :: "ElizaClientConfig \<Rightarrow> PartialConfig \<Rightarrow> ElizaClientConfig" where
  "mergeConfig c p =
     \<lparr> agentId = (case agentId_opt p of None \<Rightarrow> agentId c | Some v \<Rightarrow> v),
       userId = (case userId_opt p of None \<Rightarrow> userId c | Some v \<Rightarrow> v),
       roomId = (case roomId_opt p of None \<Rightarrow> roomId c | Some v \<Rightarrow> v),
       worldId = (case worldId_opt p of None \<Rightarrow> worldId c | Some v \<Rightarrow> v),
       serverUrl = (case serverUrl_opt p of None \<Rightarrow> serverUrl c | Some v \<Rightarrow> v),
       connectionTimeout =
         (case connectionTimeout_opt p of None \<Rightarrow> connectionTimeout c | Some v \<Rightarrow> v),
       responseTimeout =
         (case responseTimeout_opt p of None \<Rightarrow> responseTimeout c | Some v \<Rightarrow> v) \<rparr>"

definition criticalChange :: "ElizaClientConfig \<Rightarrow> ElizaClientConfig \<Rightarrow> bool" where
  "criticalChange oldConfig newConfig =
     (agentId oldConfig \<noteq> agentId newConfig \<or>
      roomId oldConfig \<noteq> roomId newConfig \<or>
      serverUrl oldConfig \<noteq> serverUrl newConfig \<or>
      userId oldConfig \<noteq> userId newConfig \<or>
      worldId oldConfig \<noteq> worldId newConfig)"

definition populated :: "ElizaClientConfig \<Rightarrow> bool" where
  "populated c =
     (agentId c \<noteq> [] \<and> roomId c \<noteq> [] \<and> serverUrl c \<noteq> [] \<and> userId c \<noteq> [] \<and> worldId c \<noteq> [])"

text \<open>
  \<open>setConfig\<close>, up to its call of \<open>connect()\<close>: the merge and the conditional disconnect
  (\<open>await this.disconnect()\<close> awaits a value that is not a promise, so no event is handled
  in between). The second component of the result says whether \<open>connect()\<close> is called next.
\<close>

definition setConfig_prepare :: "PartialConfig \<Rightarrow> bool \<Rightarrow> ElizaClient \<Rightarrow> ElizaClient \<times> bool" where
  "setConfig_prepare newConfigPartial ack s =
     (let oldConfig = config s;
          s1 = s\<lparr>config := mergeConfig (config s) newConfigPartial\<rparr>;
          critical = criticalChange oldConfig (config s1);
          s2 = (if critical \<and> connectionState s1 \<noteq> DISCONNECTED then disconnect ack s1 else s1)
      in if connectionState s2 = DISCONNECTED \<or> (critical \<and> connectionState s2 \<noteq> CONNECTING)
         then if populated (config s2) then (s2, True)
              else (updateState DISCONNECTED s2, False)
         else (s2, False))"

text \<open>
  \<open>setConfig\<close>: the result of the attempted \<open>connect()\<close>, if one was attempted. An error of
  that attempt is caught and logged, never passed on.
\<close>

definition setConfig ::
  "PartialConfig \<Rightarrow> bool \<Rightarrow> int \<Rightarrow> string option \<Rightarrow> ElizaClient
     \<Rightarrow> connect_result option \<times> ElizaClient" where
  "setConfig newConfigPartial ack now io s =
     (case setConfig_prepare newConfigPartial ack s of
        (s2, True) \<Rightarrow> (case connect now io s2 of (r, s3) \<Rightarrow> (Some r, s3))
      | (s2, False) \<Rightarrow> (None, s2))"

subsection \<open>Send\<close>

text \<open>
  What \<open>sendMessage\<close> hands back: an exception, normal completion, or a suspension on the
  connect promise of socket \<open>k\<close>.
\<close>

datatype sent_result = SentThrew Error | Sent | SentAwaitsConnect nat

text \<open>
  \<open>sendMessage\<close> after its \<open>await this.connect()\<close>: the membership check, and the emission of
  the message with the generated identifier \<open>messageId\<close>.
\<close>

definition sendJoined :: "string \<Rightarrow> string \<Rightarrow> ElizaClient \<Rightarrow> sent_result \<times> ElizaClient" where
  "sendJoined messageText messageId s =
     (case socket s of
        Some k \<Rightarrow>
          (Sent, emit (SEND_MESSAGE (userId (config s)) ''mcp-user'' messageText
                         (roomId (config s)) (agentId (config s)) (worldId (config s))
                         messageId ''mcp_client_chat'') s)
      | None \<Rightarrow> (SentThrew SocketNotInitialized, s))"

definition sendAfterAwait :: "string \<Rightarrow> string \<Rightarrow> ElizaClient \<Rightarrow> sent_result \<times> ElizaClient" where
  "sendAfterAwait messageText messageId s =
     (if \<not> roomJoined s
      then if connectionState s \<noteq> CONNECTED then (SentThrew NotEstablished, s)
           else sendJoined messageText messageId (joinRoom s)
      else sendJoined messageText messageId s)"

definition sendMessage ::
  "string \<Rightarrow> string \<Rightarrow> int \<Rightarrow> string option \<Rightarrow> ElizaClient \<Rightarrow> sent_result \<times> ElizaClient" where
  "sendMessage messageText messageId now io s =
     (if \<not> socketConnected s
      then (case connect now io s of
              (Threw e, s1) \<Rightarrow> (SentThrew e, s1)
            | (Rejected e, s1) \<Rightarrow> (SentThrew e, s1)
            | (Returned b, s1) \<Rightarrow> sendAfterAwait messageText messageId s1
            | (Awaiting k, s1) \<Rightarrow> (SentAwaitsConnect k, s1))
      else sendAfterAwait messageText messageId s)"

text \<open>The continuation of a \<open>sendMessage\<close> suspended on the connect promise of socket \<open>k\<close>.\<close>

definition sendMessageResume ::
  "string \<Rightarrow> string \<Rightarrow> nat \<Rightarrow> ElizaClient \<Rightarrow> sent_result \<times> ElizaClient" where
  "sendMessageResume messageText messageId k s =
     (case connPromises s k of
        Pending \<Rightarrow> (SentAwaitsConnect k, s)
      | Failed e \<Rightarrow> (SentThrew e, s)
      | Fulfilled b \<Rightarrow> sendAfterAwait messageText messageId s)"

subsection \<open>Send and await\<close>

text \<open>
  What \<open>sendMessageAndGetResponse\<close> hands back: the rejection of the awaited \<open>connect()\<close>,
  an error-shaped result returned at once, a suspension on the connect promise of socket
  \<open>k\<close>, or the promise \<open>w\<close> of the registered waiter.
\<close>

datatype send_result =
    SendThrew Error
  | SendReturned AgentResponseMessage
  | SendAwaitsConnect nat
  | SendAwaitsReply nat

text \<open>
  The promise executor at the end of \<open>sendMessageAndGetResponse\<close>: start the timer, push
  the resolver, emit. \<open>messageId\<close> is the identifier generated from the clock and the
  random source.
\<close>

definition sendAndRegister :: "string \<Rightarrow> string \<Rightarrow> ElizaClient \<Rightarrow> nat \<times> ElizaClient" where
  "sendAndRegister messageText messageId s =
     (let w = nextWaiter s;
          s0 = s\<lparr>nextWaiter := w + 1,
                 promises := (promises s)(w := Pending),
                 timers := (timers s)(w \<mapsto> SendAwait messageId)\<rparr>;
          s1 = s0\<lparr>resolvers := resolvers s0 @ [(w, SendAwait messageId)]\<rparr>
      in case socket s1 of
           Some k \<Rightarrow>
             (w, emit (SEND_MESSAGE (userId (config s1)) ''mcp-user'' messageText
                         (roomId (config s1)) (agentId (config s1)) (worldId (config s1))
                         messageId ''mcp_client_chat'') s1)
         | None \<Rightarrow>
             (w, resolve w
                   (errorResult ''Socket is not initialized, cannot send message.'' messageId)
                   (s1\<lparr>timers := (timers s1)(w := None),
                       resolvers := removeAll (w, SendAwait messageId) (resolvers s1)\<rparr>)))"

text \<open>From the membership check on, with the socket known to be connected.\<close>

definition sendWhenConnected :: "string \<Rightarrow> string \<Rightarrow> ElizaClient \<Rightarrow> send_result \<times> ElizaClient" where
  "sendWhenConnected messageText messageId s =
     (if \<not> roomJoined s
      then if connectionState s \<noteq> CONNECTED
           then (SendReturned
                   (errorResult
                      ''Cannot send message, connection not established and room not joined.''
                      []), s)
           else (case sendAndRegister messageText messageId (joinRoom s) of
                   (w, s') \<Rightarrow> (SendAwaitsReply w, s'))
      else (case sendAndRegister messageText messageId s of
              (w, s') \<Rightarrow> (SendAwaitsReply w, s')))"

text \<open>After \<open>await this.connect()\<close> has returned normally.\<close>

definition sendAfterConnect :: "string \<Rightarrow> string \<Rightarrow> ElizaClient \<Rightarrow> send_result \<times> ElizaClient" where
  "sendAfterConnect messageText messageId s =
     (if \<not> socketConnected s
      then (SendReturned (errorResult ''Failed to connect. Cannot send message.'' []), s)
      else sendWhenConnected messageText messageId s)"

definition sendMessageAndGetResponse ::
  "string \<Rightarrow> string \<Rightarrow> int \<Rightarrow> string option \<Rightarrow> ElizaClient \<Rightarrow> send_result \<times> ElizaClient" where
  "sendMessageAndGetResponse messageText messageId now io s =
     (if \<not> socketConnected s
      then (case connect now io s of
              (Threw e, s1) \<Rightarrow> (SendThrew e, s1)
            | (Rejected e, s1) \<Rightarrow> (SendThrew e, s1)
            | (Returned b, s1) \<Rightarrow> sendAfterConnect messageText messageId s1
            | (Awaiting k, s1) \<Rightarrow> (SendAwaitsConnect k, s1))
      else sendWhenConnected messageText messageId s)"

text \<open>
  The continuation of a call suspended on the connect promise of socket \<open>k\<close>, run once
  that promise is settled.
\<close>

definition sendResume :: "string \<Rightarrow> string \<Rightarrow> nat \<Rightarrow> ElizaClient \<Rightarrow> send_result \<times> ElizaClient" where
  "sendResume messageText messageId k s =
     (case connPromises s k of
        Pending \<Rightarrow> (SendAwaitsConnect k, s)
      | Failed e \<Rightarrow> (SendThrew e, s)
      | Fulfilled b \<Rightarrow> sendAfterConnect messageText messageId s)"

subsection \<open>Histories\<close>

text \<open>
  A history of the session: events delivered by the event loop and calls of the public
  operations, in the order in which they run.
\<close>

datatype action =
    Deliver event
  | CallConnect int "string option"
  | CallDisconnect bool
  | CallOnMessage nat
  | CallOnStateChange nat
  | CallOnError nat
  | CallSendMessage string string int "string option"
  | ResumeSendMessage string string nat
  | CallWaitForNextMessage "nat option"
  | CallSend string string int "string option"
  | ResumeSend string string nat
  | CallSwitchAgent string string bool "event list" int "string option"
  | CallSetConfig PartialConfig bool int "string option"

fun step :: "action \<Rightarrow> ElizaClient \<Rightarrow> ElizaClient" where
  "step (Deliver e) s = handle e s"
| "step (CallConnect now io) s = snd (connect now io s)"
| "step (CallDisconnect ack) s = disconnect ack s"
| "step (CallOnMessage l) s = onMessage l s"
| "step (CallOnStateChange l) s = onStateChange l s"
| "step (CallOnError l) s = onError l s"
| "step (CallSendMessage messageText messageId now io) s =
     snd (sendMessage messageText messageId now io s)"
| "step (ResumeSendMessage messageText messageId k) s =
     snd (sendMessageResume messageText messageId k s)"
| "step (CallWaitForNextMessage timeout) s = snd (waitForNextMessage timeout s)"
| "step (CallSend messageText messageId now io) s =
     snd (sendMessageAndGetResponse messageText messageId now io s)"
| "step (ResumeSend messageText messageId k) s = snd (sendResume messageText messageId k s)"
| "step (CallSwitchAgent a r ack grace now io) s = snd (switchAgent a r ack grace now io s)"
| "step (CallSetConfig p ack now io) s = snd (setConfig p ack now io s)"

fun steps :: "action list \<Rightarrow> ElizaClient \<Rightarrow> ElizaClient" where
  "steps [] s = s"
| "steps (a # as) s = steps as (step a s)"

subsection \<open>Vocabulary of the properties\<close>

text \<open>
  An envelope that is not a valid reply, in the words of the specification: the sender is
  not the configured agent, or the text is absent, empty or white space only.
\<close>

definition invalidEnvelope :: "ElizaClient \<Rightarrow> AgentResponseMessage \<Rightarrow> bool" where
  "invalidEnvelope s data \<longleftrightarrow>
     senderId data \<noteq> Some (agentId (config s)) \<or>
     (case text_m data of None \<Rightarrow> True | Some t \<Rightarrow> list_all isWhite t)"

text \<open>The state a target switch must have produced when it calls \<open>connect()\<close>.\<close>

definition resetFor :: "string \<Rightarrow> ElizaClient \<Rightarrow> bool" where
  "resetFor t s \<longleftrightarrow>
     messageQueue s = [] \<and> resolvers s = [] \<and> \<not> roomJoined s \<and>
     agentId (config s) = t \<and> roomId (config s) = t"

text \<open>
  An event during which waiter \<open>w\<close> goes on waiting: not its own timer, and not a valid
  reply.
\<close>

definition quiet :: "ElizaClient \<Rightarrow> nat \<Rightarrow> event \<Rightarrow> bool" where
  "quiet s w e =
     (case e of
        WaiterTimer v \<Rightarrow> v \<noteq> w
      | MessageBroadcast k data \<Rightarrow> \<not> validReply s data
      | _ \<Rightarrow> True)"

text \<open>The errors with which \<open>connect()\<close> fails.\<close>

definition connectFailure :: "Error \<Rightarrow> bool" where
  "connectFailure e =
     (case e of
        NotConfigured \<Rightarrow> True
      | NotIdentical \<Rightarrow> True
      | ConnectionTimeout n \<Rightarrow> True
      | ReconnectExhausted \<Rightarrow> True
      | IoFailure x \<Rightarrow> True
      | _ \<Rightarrow> False)"





subsection \<open>Invariants\<close>

text \<open>
  In a well-formed state the waiters in the list are distinct, each has its timer armed and
  its promise pending, and every armed timer belongs to a waiter already created.
\<close>

definition wellFormed :: "ElizaClient \<Rightarrow> bool" where
  "wellFormed s \<longleftrightarrow>
     distinct (map fst (resolvers s)) \<and>
     (\<forall>w c. (w, c) \<in> set (resolvers s) \<longrightarrow> timers s w = Some c \<and> promises s w = Pending) \<and>
     (\<forall>w. timers s w \<noteq> None \<longrightarrow> w < nextWaiter s)"

text \<open>A waiter that is done with: out of the list, timer not armed, promise as given.\<close>

definition retired :: "nat \<Rightarrow> AgentResponseMessage promise \<Rightarrow> ElizaClient \<Rightarrow> bool" where
  "retired w p s \<longleftrightarrow>
     w < nextWaiter s \<and> timers s w = None \<and> w \<notin> fst ` set (resolvers s) \<and> promises s w = p"

text \<open>A waiter that is still waiting: in the list, timer armed, promise pending.\<close>

definition waitingOn :: "nat \<Rightarrow> captured \<Rightarrow> ElizaClient \<Rightarrow> bool" where
  "waitingOn w c s \<longleftrightarrow>
     timers s w = Some c \<and> promises s w = Pending \<and> (w, c) \<in> set (resolvers s)"

text \<open>A promise that has not been rejected and has no timer that could reject it.\<close>

definition unfailing :: "nat \<Rightarrow> ElizaClient \<Rightarrow> bool" where
  "unfailing w s \<longleftrightarrow>
     w < nextWaiter s \<and> (\<forall>e. promises s w \<noteq> Failed e) \<and> (\<forall>t. timers s w \<noteq> Some (WaitNext t))"

definition connInv :: "ElizaClient \<Rightarrow> bool" where
  "connInv s \<longleftrightarrow> (\<forall>k e. connPromises s k = Failed e \<longrightarrow> connectFailure e)"


subsection \<open>Example sessions\<close>

definition demoConfig :: PartialConfig where
  "demoConfig =
     \<lparr> agentId_opt = Some ''A'', userId_opt = Some ''u'', roomId_opt = Some ''A'',
       worldId_opt = Some ''w'', serverUrl_opt = Some ''http://h'',
       connectionTimeout_opt = None, responseTimeout_opt = None \<rparr>"

definition noChange :: PartialConfig where
  "noChange =
     \<lparr> agentId_opt = None, userId_opt = None, roomId_opt = None, worldId_opt = None,
       serverUrl_opt = None, connectionTimeout_opt = None, responseTimeout_opt = None \<rparr>"

definition reply :: "string \<Rightarrow> string \<Rightarrow> AgentResponseMessage" where
  "reply sender body =
     \<lparr> id_m = None, text_m = Some body, senderId = Some sender, error = None, status = None,
       payload = None \<rparr>"

text \<open>A connect attempt in flight; one that timed out; an established, joined session.\<close>

definition connectingSession :: ElizaClient where
  "connectingSession = steps [CallConnect 0 None] (constructor demoConfig)"

definition timedOutSession :: ElizaClient where
  "timedOutSession =
     steps [CallConnect 0 None, Deliver (ConnectionTimer 0)] (constructor demoConfig)"

definition demoSession :: ElizaClient where
  "demoSession = steps [CallConnect 0 None, Deliver (Connect 0 5)] (constructor demoConfig)"

text \<open>
  Two overlapping connect attempts, both sockets come up, the first one goes down again,
  then the room id alone is changed.
\<close>

definition staleSession :: ElizaClient where
  "staleSession =
     steps [CallConnect 0 None, CallConnect 1 None, Deliver (Connect 0 5), Deliver (Connect 1 6),
            Deliver (Disconnect 0 ''transport close''),
            CallSetConfig (noChange\<lparr>roomId_opt := Some ''B''\<rparr>) True 7 None]
       (constructor demoConfig)"

text \<open>An established session with one caller waiting; with one message sent and awaited.\<close>

definition waitingSession :: ElizaClient where
  "waitingSession =
     steps [CallConnect 0 None, Deliver (Connect 0 5), CallWaitForNextMessage None]
       (constructor demoConfig)"

definition sendingSession :: ElizaClient where
  "sendingSession =
     snd (sendMessageAndGetResponse ''ping'' ''m1'' 9 None demoSession)"

text \<open>
  One caller waiting, the agent switched before the timer of the caller, then the timer;
  the same with one message sent and awaited.
\<close>

definition orphanedWait :: ElizaClient where
  "orphanedWait =
     steps [CallConnect 0 None, Deliver (Connect 0 5), CallWaitForNextMessage None,
            CallSwitchAgent ''B'' ''B'' True [] 9 None, Deliver (WaiterTimer 0)]
       (constructor demoConfig)"

definition switchedSend :: ElizaClient where
  "switchedSend =
     steps [CallConnect 0 None, Deliver (Connect 0 5), CallSend ''ping'' ''m1'' 9 None,
            CallSwitchAgent ''B'' ''B'' True [] 9 None, Deliver (WaiterTimer 0)]
       (constructor demoConfig)"

text \<open>An established session with one reply queued; then one message sent and awaited.\<close>

definition backlogSession :: ElizaClient where
  "backlogSession =
     steps [CallConnect 0 None, Deliver (Connect 0 5),
            Deliver (MessageBroadcast 0 (reply ''A'' ''old''))]
       (constructor demoConfig)"

definition queuedSend :: ElizaClient where
  "queuedSend = snd (sendMessageAndGetResponse ''ping'' ''m1'' 9 None backlogSession)"


section \<open>Properties\<close>

subsection \<open>The drain loop\<close>

lemma drain_stop: "resolvers s = [] \<or> messageQueue s = [] \<Longrightarrow> drain s = s"
  by (auto simp: drain.simps [of s] split: list.splits)

lemma drain_step:
  "resolvers s = r # rs \<Longrightarrow> messageQueue s = m # ms \<Longrightarrow>
   drain s = drain (callResolver r m (s\<lparr>resolvers := rs, messageQueue := ms\<rparr>))"
  by (simp add: drain.simps [of s])

lemma drain_cases [case_names stop step]:
  assumes "\<And>s. resolvers s = [] \<or> messageQueue s = [] \<Longrightarrow> P s"
    and "\<And>s r rs m ms. resolvers s = r # rs \<Longrightarrow> messageQueue s = m # ms \<Longrightarrow>
           P (callResolver r m (s\<lparr>resolvers := rs, messageQueue := ms\<rparr>)) \<Longrightarrow> P s"
  shows "P s"
proof (induction s rule: drain.induct)
  case (1 s)
  show ?case
  proof (cases "resolvers s")
    case Nil
    then show ?thesis by (simp add: assms(1))
  next
    case R: (Cons r rs)
    show ?thesis
    proof (cases "messageQueue s")
      case Nil
      then show ?thesis by (simp add: assms(1))
    next
      case (Cons m ms)
      from "1.IH" [OF R Cons] show ?thesis by (rule assms(2) [OF R Cons])
    qed
  qed
qed

lemma drain_frame:
  assumes "\<And>r m s. f (callResolver r m s) = f s"
    and "\<And>s rs ms. f (s\<lparr>resolvers := rs, messageQueue := ms\<rparr>) = f s"
  shows "f (drain s) = f s"
proof (induction s rule: drain_cases)
  case (stop s)
  then show ?case by (simp add: drain_stop)
next
  case (step s r rs m ms)
  then show ?case by (simp add: drain_step assms)
qed

subsection \<open>What the session lifecycle leaves alone\<close>

lemma updateState_frame [simp]:
  "promises (updateState st s) = promises s"
  "timers (updateState st s) = timers s"
  "resolvers (updateState st s) = resolvers s"
  "nextWaiter (updateState st s) = nextWaiter s"
  "messageQueue (updateState st s) = messageQueue s"
  "config (updateState st s) = config s"
  by (simp_all add: updateState_def)

lemma handleError_frame [simp]:
  "promises (handleError e s) = promises s"
  "timers (handleError e s) = timers s"
  "resolvers (handleError e s) = resolvers s"
  "nextWaiter (handleError e s) = nextWaiter s"
  "messageQueue (handleError e s) = messageQueue s"
  "config (handleError e s) = config s"
  by (simp_all add: handleError_def Let_def)

lemma emit_frame [simp]:
  "promises (emit m s) = promises s"
  "timers (emit m s) = timers s"
  "resolvers (emit m s) = resolvers s"
  "nextWaiter (emit m s) = nextWaiter s"
  "messageQueue (emit m s) = messageQueue s"
  "config (emit m s) = config s"
  by (simp_all add: emit_def split: option.splits)

lemma joinRoom_frame [simp]:
  "promises (joinRoom s) = promises s"
  "timers (joinRoom s) = timers s"
  "resolvers (joinRoom s) = resolvers s"
  "nextWaiter (joinRoom s) = nextWaiter s"
  "messageQueue (joinRoom s) = messageQueue s"
  "config (joinRoom s) = config s"
  by (simp_all add: joinRoom_def)

lemma resolveConnect_frame [simp]:
  "promises (resolveConnect k s) = promises s"
  "timers (resolveConnect k s) = timers s"
  "resolvers (resolveConnect k s) = resolvers s"
  "nextWaiter (resolveConnect k s) = nextWaiter s"
  "messageQueue (resolveConnect k s) = messageQueue s"
  "config (resolveConnect k s) = config s"
  by (simp_all add: resolveConnect_def)

lemma rejectConnect_frame [simp]:
  "promises (rejectConnect k e s) = promises s"
  "timers (rejectConnect k e s) = timers s"
  "resolvers (rejectConnect k e s) = resolvers s"
  "nextWaiter (rejectConnect k e s) = nextWaiter s"
  "messageQueue (rejectConnect k e s) = messageQueue s"
  "config (rejectConnect k e s) = config s"
  by (simp_all add: rejectConnect_def)

lemma connect_frame [simp]:
  "promises (snd (connect now io s)) = promises s"
  "timers (snd (connect now io s)) = timers s"
  "resolvers (snd (connect now io s)) = resolvers s"
  "nextWaiter (snd (connect now io s)) = nextWaiter s"
  "messageQueue (snd (connect now io s)) = messageQueue s"
  "config (snd (connect now io s)) = config s"
  by (simp_all add: connect_def Let_def split: option.splits)

lemma onConnect_frame [simp]:
  "promises (onConnect k now s) = promises s"
  "timers (onConnect k now s) = timers s"
  "resolvers (onConnect k now s) = resolvers s"
  "nextWaiter (onConnect k now s) = nextWaiter s"
  "messageQueue (onConnect k now s) = messageQueue s"
  "config (onConnect k now s) = config s"
  by (simp_all add: onConnect_def)

lemma onReconnectFailed_frame [simp]:
  "promises (onReconnectFailed k s) = promises s"
  "timers (onReconnectFailed k s) = timers s"
  "resolvers (onReconnectFailed k s) = resolvers s"
  "nextWaiter (onReconnectFailed k s) = nextWaiter s"
  "messageQueue (onReconnectFailed k s) = messageQueue s"
  "config (onReconnectFailed k s) = config s"
  by (simp_all add: onReconnectFailed_def)

lemma onDisconnect_frame [simp]:
  "promises (onDisconnect k reason s) = promises s"
  "timers (onDisconnect k reason s) = timers s"
  "resolvers (onDisconnect k reason s) = resolvers s"
  "nextWaiter (onDisconnect k reason s) = nextWaiter s"
  "messageQueue (onDisconnect k reason s) = messageQueue s"
  "config (onDisconnect k reason s) = config s"
  by (simp_all add: onDisconnect_def)

lemma connectionTimeoutFired_frame [simp]:
  "promises (connectionTimeoutFired k s) = promises s"
  "timers (connectionTimeoutFired k s) = timers s"
  "resolvers (connectionTimeoutFired k s) = resolvers s"
  "nextWaiter (connectionTimeoutFired k s) = nextWaiter s"
  "messageQueue (connectionTimeoutFired k s) = messageQueue s"
  "config (connectionTimeoutFired k s) = config s"
  by (simp_all add: connectionTimeoutFired_def)

lemma disconnect_frame [simp]:
  "promises (disconnect ack s) = promises s"
  "timers (disconnect ack s) = timers s"
  "resolvers (disconnect ack s) = resolvers s"
  "nextWaiter (disconnect ack s) = nextWaiter s"
  "messageQueue (disconnect ack s) = messageQueue s"
  "config (disconnect ack s) = config s"
  by (simp_all add: disconnect_def Let_def split: option.splits)

lemma onMessage_frame [simp]:
  "promises (onMessage l s) = promises s"
  "timers (onMessage l s) = timers s"
  "resolvers (onMessage l s) = resolvers s"
  "nextWaiter (onMessage l s) = nextWaiter s"
  "messageQueue (onMessage l s) = messageQueue s"
  "config (onMessage l s) = config s"
  by (simp_all add: onMessage_def)

lemma onStateChange_frame [simp]:
  "promises (onStateChange l s) = promises s"
  "timers (onStateChange l s) = timers s"
  "resolvers (onStateChange l s) = resolvers s"
  "nextWaiter (onStateChange l s) = nextWaiter s"
  "messageQueue (onStateChange l s) = messageQueue s"
  "config (onStateChange l s) = config s"
  by (simp_all add: onStateChange_def)

lemma onError_frame [simp]:
  "promises (onError l s) = promises s"
  "timers (onError l s) = timers s"
  "resolvers (onError l s) = resolvers s"
  "nextWaiter (onError l s) = nextWaiter s"
  "messageQueue (onError l s) = messageQueue s"
  "config (onError l s) = config s"
  by (simp_all add: onError_def)

lemma sendJoined_frame [simp]:
  "promises (snd (sendJoined messageText messageId s)) = promises s"
  "timers (snd (sendJoined messageText messageId s)) = timers s"
  "resolvers (snd (sendJoined messageText messageId s)) = resolvers s"
  "nextWaiter (snd (sendJoined messageText messageId s)) = nextWaiter s"
  "messageQueue (snd (sendJoined messageText messageId s)) = messageQueue s"
  "config (snd (sendJoined messageText messageId s)) = config s"
  by (simp_all add: sendJoined_def split: option.splits)

lemma sendAfterAwait_frame [simp]:
  "promises (snd (sendAfterAwait messageText messageId s)) = promises s"
  "timers (snd (sendAfterAwait messageText messageId s)) = timers s"
  "resolvers (snd (sendAfterAwait messageText messageId s)) = resolvers s"
  "nextWaiter (snd (sendAfterAwait messageText messageId s)) = nextWaiter s"
  "messageQueue (snd (sendAfterAwait messageText messageId s)) = messageQueue s"
  "config (snd (sendAfterAwait messageText messageId s)) = config s"
  by (simp_all add: sendAfterAwait_def)

lemma sendMessageResume_frame [simp]:
  "promises (snd (sendMessageResume messageText messageId k s)) = promises s"
  "timers (snd (sendMessageResume messageText messageId k s)) = timers s"
  "resolvers (snd (sendMessageResume messageText messageId k s)) = resolvers s"
  "nextWaiter (snd (sendMessageResume messageText messageId k s)) = nextWaiter s"
  "messageQueue (snd (sendMessageResume messageText messageId k s)) = messageQueue s"
  "config (snd (sendMessageResume messageText messageId k s)) = config s"
  by (simp_all add: sendMessageResume_def split: promise.splits)

lemma sendMessage_frame [simp]:
  "promises (snd (sendMessage messageText messageId now io s)) = promises s"
  "timers (snd (sendMessage messageText messageId now io s)) = timers s"
  "resolvers (snd (sendMessage messageText messageId now io s)) = resolvers s"
  "nextWaiter (snd (sendMessage messageText messageId now io s)) = nextWaiter s"
  "messageQueue (snd (sendMessage messageText messageId now io s)) = messageQueue s"
  "config (snd (sendMessage messageText messageId now io s)) = config s"
proof -
  obtain r s1 where c: "connect now io s = (r, s1)" by (cases "connect now io s")
  then have e: "s1 = snd (connect now io s)" by simp
  have f: "snd (sendMessage messageText messageId now io s) =
           (if socketConnected s then snd (sendAfterAwait messageText messageId s)
            else case r of Returned b \<Rightarrow> snd (sendAfterAwait messageText messageId s1) | _ \<Rightarrow> s1)"
    using c by (simp add: sendMessage_def split: connect_result.splits)
  show "promises (snd (sendMessage messageText messageId now io s)) = promises s"
    by (simp add: f e split: connect_result.splits)
  show "timers (snd (sendMessage messageText messageId now io s)) = timers s"
    by (simp add: f e split: connect_result.splits)
  show "resolvers (snd (sendMessage messageText messageId now io s)) = resolvers s"
    by (simp add: f e split: connect_result.splits)
  show "nextWaiter (snd (sendMessage messageText messageId now io s)) = nextWaiter s"
    by (simp add: f e split: connect_result.splits)
  show "messageQueue (snd (sendMessage messageText messageId now io s)) = messageQueue s"
    by (simp add: f e split: connect_result.splits)
  show "config (snd (sendMessage messageText messageId now io s)) = config s"
    by (simp add: f e split: connect_result.splits)
qed


lemmas session_defs =
  constructor_def orEmpty_def orDefault_def connect_def socketConnected_def updateState_def
  handleError_def handle_def onConnect_def joinRoom_def emit_def resolveConnect_def
  rejectConnect_def onDisconnect_def connectionTimeoutFired_def disconnect_def setConfig_def
  setConfig_prepare_def mergeConfig_def criticalChange_def populated_def

lemmas demo_defs =
  demoConfig_def noChange_def connectingSession_def timedOutSession_def demoSession_def
  staleSession_def

text \<open>
  Claim C6 (idempotent connect). In every state in which the current socket is connected,
  \<open>connect()\<close> returns \<open>true\<close> at once and changes nothing: no socket is created and
  nothing is written to the transport, so no second join envelope is sent. Two calls in a
  row both succeed and leave the state, and in particular the transport log, as it was.
\<close>

theorem connect_idempotent:
  assumes "socketConnected s"
  shows "connect now io s = (Returned True, s) \<and>
         steps [CallConnect now io, CallConnect now' io'] s = s \<and>
         wire (steps [CallConnect now io, CallConnect now' io'] s) = wire s"
  using assms by (simp add: connect_def)

theorem connect_idempotent_witness:
  "socketConnected demoSession \<and>
   connect 7 None demoSession = (Returned True, demoSession) \<and>
   wire (steps [CallConnect 7 None, CallConnect 8 None] demoSession) =
     [Open 0 ''http://h'', Emit 0 (ROOM_JOINING ''A'' [''A''])]"
proof -
  have c: "socketConnected demoSession"
    by (simp add: demo_defs session_defs)
  have w: "wire demoSession = [Open 0 ''http://h'', Emit 0 (ROOM_JOINING ''A'' [''A''])]"
    by (simp add: demo_defs session_defs)
  from connect_idempotent [OF c, of 7 None 8 None] have
    "connect 7 None demoSession = (Returned True, demoSession)"
    "wire (steps [CallConnect 7 None, CallConnect 8 None] demoSession) = wire demoSession"
    by blast+
  with c w show ?thesis by simp
qed

text \<open>
  Claim C2, as stated, fails: the test for an already connected socket comes before the
  identity checks of \<open>connect()\<close>. In \<open>staleSession\<close> the current socket is connected while
  agent id and room id differ (a second \<open>connect()\<close> was issued while the first was still
  in flight, the first socket came up and went down again, and \<open>setConfig\<close> then changed the
  room id only); \<open>connect()\<close> returns \<open>true\<close> there and raises nothing.
\<close>

theorem connect_precondition_counterexample:
  "socketConnected staleSession \<and>
   agentId (config staleSession) \<noteq> roomId (config staleSession) \<and>
   connect 9 None staleSession = (Returned True, staleSession)"
  by (simp add: demo_defs session_defs)

text \<open>
  Claim C2, amended. Whenever the current socket is not connected and agent id or room id
  is empty or the two differ, \<open>connect()\<close> raises a configuration error and leaves the
  state as it was (no socket is created, nothing is scheduled that could retry); and
  \<open>switchAgent\<close> raises, leaving the state as it was, whenever its two arguments differ.
\<close>

theorem connect_precondition:
  "(\<not> socketConnected s \<and>
      (agentId (config s) = [] \<or> roomId (config s) = [] \<or> agentId (config s) \<noteq> roomId (config s))
      \<longrightarrow> (connect now io s = (Threw NotConfigured, s) \<or> connect now io s = (Threw NotIdentical, s))) \<and>
   (newAgentId \<noteq> newRoomId
      \<longrightarrow> switchAgent newAgentId newRoomId ack grace now io s = (Threw SwitchNotIdentical, s))"
  by (simp add: connect_def switchAgent_def switchAgent_prepare_def)

theorem connect_precondition_witness:
  "\<not> socketConnected (constructor (demoConfig\<lparr>roomId_opt := Some ''B''\<rparr>)) \<and>
   connect 0 None (constructor (demoConfig\<lparr>roomId_opt := Some ''B''\<rparr>)) =
     (Threw NotIdentical, constructor (demoConfig\<lparr>roomId_opt := Some ''B''\<rparr>)) \<and>
   connect 0 None (constructor (demoConfig\<lparr>roomId_opt := None\<rparr>)) =
     (Threw NotConfigured, constructor (demoConfig\<lparr>roomId_opt := None\<rparr>)) \<and>
   switchAgent ''A'' ''B'' True [] 0 None demoSession = (Threw SwitchNotIdentical, demoSession)"
  using connect_precondition [of "constructor (demoConfig\<lparr>roomId_opt := Some ''B''\<rparr>)" 0 None
      "''A''" "''B''" True "[]"]
    connect_precondition [of "constructor (demoConfig\<lparr>roomId_opt := None\<rparr>)" 0 None
      "''A''" "''B''" True "[]"]
    connect_precondition [of demoSession 0 None "''A''" "''B''" True "[]"]
  by (simp add: demo_defs session_defs)
subsection \<open>Connect promises\<close>

lemma callResolver_others [simp]:
  "connPromises (callResolver r m s) = connPromises s"
  "resolvers (callResolver r m s) = resolvers s"
  "messageQueue (callResolver r m s) = messageQueue s"
  "nextWaiter (callResolver r m s) = nextWaiter s"
  "config (callResolver r m s) = config s"
  "calls (callResolver r m s) = calls s"
  "messageListeners (callResolver r m s) = messageListeners s"
  by (simp_all add: callResolver_def resolve_def)

lemma drain_others [simp]:
  "connPromises (drain s) = connPromises s"
  "nextWaiter (drain s) = nextWaiter s"
  "config (drain s) = config s"
  "calls (drain s) = calls s"
  "messageListeners (drain s) = messageListeners s"
  by (rule drain_frame; simp)+

lemma connPromises_notifyMessageListeners [simp]:
  "connPromises (notifyMessageListeners data s) = connPromises s"
  by (simp add: notifyMessageListeners_def Let_def)

lemma connPromises_fireTimer [simp]: "connPromises (fireTimer w s) = connPromises s"
  by (simp add: fireTimer_def waitTimeoutFired_def responseTimeoutFired_def resolve_def reject_def
      split: option.splits captured.splits)

lemma connPromises_lifecycle [simp]:
  "connPromises (updateState st s) = connPromises s"
  "connPromises (handleError e s) = connPromises s"
  "connPromises (joinRoom s) = connPromises s"
  by (simp_all add: updateState_def handleError_def joinRoom_def emit_def Let_def
      split: option.splits)

lemma connPromises_resolveConnect:
  "connPromises (resolveConnect k s) j =
     (if j = k \<and> connPromises s k = Pending then Fulfilled True else connPromises s j)"
  by (simp add: resolveConnect_def)

lemma connPromises_rejectConnect:
  "connPromises (rejectConnect k e s) j =
     (if j = k \<and> connPromises s k = Pending then Failed e else connPromises s j)"
  by (simp add: rejectConnect_def)

lemmas handler_defs =
  handle_def onConnect_def onConnectError_def onReconnectAttempt_def onReconnectFailed_def
  onDisconnect_def onMessageBroadcast_def onMessageComplete_def connectionTimeoutFired_def

text \<open>
  Claim C9 (connect errors settle nothing). The handler of \<open>connect_error\<close> leaves the whole
  state as it is, so it neither settles the promise of the pending \<open>connect()\<close> nor changes
  the connection state. An event that changes the promise of the attempt on socket \<open>k\<close> is
  the \<open>connect\<close> event of that socket, its \<open>reconnect_failed\<close> event or its connection
  timer; and on a pending attempt the first fulfils the promise with \<open>true\<close>, the second
  rejects it, and the armed timer rejects it unless the state is \<open>CONNECTED\<close>.
\<close>

theorem connect_error_settles_nothing:
  "handle (ConnectError k) s = s \<and>
   (connPromises (handle e s) k \<noteq> connPromises s k \<longrightarrow>
      (\<exists>now. e = Connect k now) \<or> e = ReconnectFailed k \<or> e = ConnectionTimer k) \<and>
   (k < sockets s \<and> connPromises s k = Pending \<longrightarrow>
      connPromises (handle (Connect k now) s) k = Fulfilled True \<and>
      connPromises (handle (ReconnectFailed k) s) k = Failed ReconnectExhausted \<and>
      (connTimers s k \<and> connectionState s \<noteq> CONNECTED \<longrightarrow>
         connPromises (handle (ConnectionTimer k) s) k =
           Failed (ConnectionTimeout (connectionTimeout (config s)))))"
proof -
  have a: "handle (ConnectError k) s = s"
    by (simp add: handler_defs)
  have b: "connPromises (handle e s) k = connPromises s k"
    if "\<forall>now. e \<noteq> Connect k now" "e \<noteq> ReconnectFailed k" "e \<noteq> ConnectionTimer k"
    using that
    by (cases e) (simp_all add: handler_defs connPromises_resolveConnect connPromises_rejectConnect)
  have c: "connPromises (handle (Connect k now) s) k = Fulfilled True"
    "connPromises (handle (ReconnectFailed k) s) k = Failed ReconnectExhausted"
    if "k < sockets s" "connPromises s k = Pending"
    using that
    by (simp_all add: handler_defs connPromises_resolveConnect connPromises_rejectConnect)
  have d: "connPromises (handle (ConnectionTimer k) s) k =
             Failed (ConnectionTimeout (connectionTimeout (config s)))"
    if "connPromises s k = Pending" "connTimers s k" "connectionState s \<noteq> CONNECTED"
    using that
    by (simp add: handler_defs connPromises_rejectConnect)
  from a b c d show ?thesis by blast
qed

theorem connect_error_settles_nothing_witness:
  "connPromises (handle (Connect 0 5) connectingSession) 0 \<noteq> connPromises connectingSession 0 \<and>
   0 < sockets connectingSession \<and> connPromises connectingSession 0 = Pending \<and>
   connTimers connectingSession 0 \<and> connectionState connectingSession \<noteq> CONNECTED \<and>
   handle (ConnectError 0) connectingSession = connectingSession \<and>
   connPromises (handle (Connect 0 5) connectingSession) 0 = Fulfilled True \<and>
   connPromises (handle (ReconnectFailed 0) connectingSession) 0 = Failed ReconnectExhausted \<and>
   connPromises (handle (ConnectionTimer 0) connectingSession) 0 =
     Failed (ConnectionTimeout 120000)"
proof -
  have h: "0 < sockets connectingSession" "connPromises connectingSession 0 = Pending"
    "connTimers connectingSession 0" "connectionState connectingSession \<noteq> CONNECTED"
    "connectionTimeout (config connectingSession) = 120000"
    by (simp_all add: demo_defs session_defs)
  from connect_error_settles_nothing [of 0 connectingSession "Connect 0 5" 5] h
  show ?thesis by simp
qed

subsection \<open>Reconfiguration\<close>

lemma wire_disconnect:
  "wire (disconnect ack s) = (case socket s of None \<Rightarrow> wire s | Some k \<Rightarrow> wire s @ [Close k])"
  by (simp add: disconnect_def onDisconnect_def updateState_def Let_def split: option.splits)

lemma wire_emit: "set (wire s) \<subseteq> set (wire (emit m s))"
  by (auto simp: emit_def split: option.splits)

lemma wire_joinRoom: "set (wire s) \<subseteq> set (wire (joinRoom s))"
  using wire_emit by (auto simp: joinRoom_def)

lemma wire_unchanged [simp]:
  "wire (updateState st s) = wire s"
  "wire (handleError e s) = wire s"
  "wire (resolveConnect k s) = wire s"
  "wire (rejectConnect k e s) = wire s"
  "wire (callResolver r m s) = wire s"
  "wire (fireTimer w s) = wire s"
  by (simp_all add: updateState_def handleError_def resolveConnect_def rejectConnect_def
      callResolver_def fireTimer_def waitTimeoutFired_def responseTimeoutFired_def
      resolve_def reject_def Let_def split: option.splits captured.splits)

lemma wire_drain [simp]: "wire (drain s) = wire s"
  by (rule drain_frame) simp_all

lemma wire_handle: "set (wire s) \<subseteq> set (wire (handle e s))"
proof (cases e)
  case (Connect k now)
  have "set (wire s) \<subseteq>
        set (wire (joinRoom (updateState CONNECTED
               (s\<lparr>connected := (connected s)(k := True),
                  connTimers := (connTimers s)(k := False),
                  connectionTime := now - connectionStartTime s\<rparr>))))"
    using wire_joinRoom [of "updateState CONNECTED
               (s\<lparr>connected := (connected s)(k := True),
                  connTimers := (connTimers s)(k := False),
                  connectionTime := now - connectionStartTime s\<rparr>)"]
    by simp
  with Connect show ?thesis by (simp add: handle_def onConnect_def)
qed (simp_all add: handle_def onConnectError_def onReconnectAttempt_def onReconnectFailed_def
      onDisconnect_def onMessageBroadcast_def onMessageComplete_def connectionTimeoutFired_def
      notifyMessageListeners_def Let_def)

lemma wire_run: "set (wire s) \<subseteq> set (wire (run es s))"
proof (induction es arbitrary: s)
  case Nil
  show ?case by simp
next
  case (Cons e es)
  from wire_handle [of s e] Cons [of "handle e s"] show ?case by auto
qed

text \<open>
  Claim C7 (reconfiguration reset). For every call \<open>switchAgent(t, t)\<close>, in every state, with
  either behaviour of the transport and whatever is delivered during the pause, the state
  in which \<open>connect()\<close> is then called has an empty message queue, an empty waiter list, the
  membership flag cleared and both agent id and room id equal to \<open>t\<close>; and if the socket was
  connected, its close has been requested by then. The same holds for the second of two
  switches, whatever happened in between.
\<close>

theorem switchAgent_resets:
  "\<exists>sA sB.
     switchAgent_prepare a a ack grace s = Inr sA \<and> resetFor a sA \<and>
     (\<forall>k. socket s = Some k \<and> connected s k \<longrightarrow> Close k \<in> set (wire sA)) \<and>
     switchAgent a a ack grace now io s = connect now io sA \<and>
     switchAgent_prepare b b ack' grace' (steps between (snd (connect now io sA))) = Inr sB \<and>
     resetFor b sB \<and>
     switchAgent b b ack' grace' now' io' (steps between (snd (connect now io sA))) =
       connect now' io' sB"
proof -
  have "Close k \<in> set (wire (run grace (disconnect ack s)))" if "socket s = Some k" for k
  proof -
    from that have "Close k \<in> set (wire (disconnect ack s))"
      by (simp add: wire_disconnect)
    with wire_run [of "disconnect ack s" grace] show ?thesis by blast
  qed
  then show ?thesis
    by (auto simp: switchAgent_def switchAgent_prepare_def resetFor_def Let_def
        socketConnected_def)
qed

theorem switchAgent_resets_witness:
  "socket demoSession = Some 0 \<and> connected demoSession 0 \<and>
   (\<exists>sA. switchAgent_prepare ''B'' ''B'' True [] demoSession = Inr sA \<and> resetFor ''B'' sA \<and>
         Close 0 \<in> set (wire sA))"
proof -
  have h: "socket demoSession = Some 0" "connected demoSession 0"
    by (simp_all add: demo_defs session_defs)
  from switchAgent_resets [of "''B''" True "[]" demoSession 0 None "''C''" True "[]" "[]" 0 None] h
  show ?thesis by blast
qed

subsection \<open>setConfig\<close>

lemma connectionState_disconnect:
  "connectionState (disconnect ack s) =
     (if ack \<and> socketConnected s then DISCONNECTED else connectionState s)"
  by (simp add: disconnect_def onDisconnect_def updateState_def socketConnected_def Let_def
      split: option.splits)

lemma disconnect_config_update:
  "disconnect ack (s\<lparr>config := c\<rparr>) = (disconnect ack s)\<lparr>config := c\<rparr>"
  by (simp add: disconnect_def onDisconnect_def updateState_def Let_def split: option.splits)

lemma wire_connect: "\<exists>rest. wire (snd (connect now io s)) = wire s @ rest"
  by (simp add: connect_def handleError_def updateState_def Let_def split: option.splits)

lemma setConfig_prepare_critical:
  assumes "criticalChange (config s) (mergeConfig (config s) p)"
  shows "setConfig_prepare p ack s =
     (let s2 = (if connectionState s \<noteq> DISCONNECTED then disconnect ack s else s)
                 \<lparr>config := mergeConfig (config s) p\<rparr>
      in if connectionState s2 \<noteq> CONNECTING
         then if populated (config s2) then (s2, True) else (updateState DISCONNECTED s2, False)
         else (s2, False))"
  using assms by (auto simp: setConfig_prepare_def Let_def disconnect_config_update)

text \<open>
  A critical change while a connect attempt is in flight (\<open>connectingSession\<close>): the socket
  of the attempt is closed, the guard \<open>connectionState !== CONNECTING\<close> then skips the
  reconnect although all five identity fields are populated, and the state stays
  \<open>CONNECTING\<close> with no socket left to bring it up. The description of \<open>setConfig\<close>, its
  comments and its log line (``initiating disconnect before reconnecting'') all say that a
  critical change disconnects and reconnects, and so do the paths from \<open>CONNECTED\<close> and
  \<open>ERROR\<close>.
\<close>

lemma setConfig_while_connecting:
  "connectionState connectingSession = CONNECTING \<and>
   criticalChange (config connectingSession)
     (mergeConfig (config connectingSession)
        (noChange\<lparr>agentId_opt := Some ''B'', roomId_opt := Some ''B''\<rparr>)) \<and>
   populated (mergeConfig (config connectingSession)
        (noChange\<lparr>agentId_opt := Some ''B'', roomId_opt := Some ''B''\<rparr>)) \<and>
   fst (setConfig (noChange\<lparr>agentId_opt := Some ''B'', roomId_opt := Some ''B''\<rparr>) True 3 None
          connectingSession) = None \<and>
   wire (snd (setConfig (noChange\<lparr>agentId_opt := Some ''B'', roomId_opt := Some ''B''\<rparr>) True 3 None
                connectingSession)) = [Open 0 ''http://h'', Close 0] \<and>
   connectionState
     (snd (setConfig (noChange\<lparr>agentId_opt := Some ''B'', roomId_opt := Some ''B''\<rparr>) True 3 None
             connectingSession)) = CONNECTING"
  by (simp add: demo_defs session_defs)

text \<open>
  Claim C8, as stated, fails. After a connection timeout (\<open>timedOutSession\<close>, state \<open>ERROR\<close>)
  a change of agent and room, with all five identity fields populated, calls \<open>disconnect()\<close>
  and then \<open>connect()\<close>; but the socket was never connected, so closing it yields no
  \<open>disconnect\<close> event, and the state is still \<open>ERROR\<close> when \<open>connect()\<close> is called: it goes
  from \<open>ERROR\<close> to \<open>CONNECTING\<close> and never passes through \<open>DISCONNECTED\<close>.
\<close>

theorem setConfig_critical_counterexample:
  "criticalChange (config timedOutSession)
     (mergeConfig (config timedOutSession)
        (noChange\<lparr>agentId_opt := Some ''B'', roomId_opt := Some ''B''\<rparr>)) \<and>
   populated (mergeConfig (config timedOutSession)
        (noChange\<lparr>agentId_opt := Some ''B'', roomId_opt := Some ''B''\<rparr>)) \<and>
   connectionState timedOutSession = ERROR \<and>
   connectionState (disconnect True timedOutSession) = ERROR \<and>
   setConfig_prepare (noChange\<lparr>agentId_opt := Some ''B'', roomId_opt := Some ''B''\<rparr>) True
       timedOutSession =
     ((disconnect True timedOutSession)
        \<lparr>config := mergeConfig (config timedOutSession)
             (noChange\<lparr>agentId_opt := Some ''B'', roomId_opt := Some ''B''\<rparr>)\<rparr>, True) \<and>
   fst (setConfig (noChange\<lparr>agentId_opt := Some ''B'', roomId_opt := Some ''B''\<rparr>) True 3 None
          timedOutSession) = Some (Awaiting 1) \<and>
   connectionState
     (snd (setConfig (noChange\<lparr>agentId_opt := Some ''B'', roomId_opt := Some ''B''\<rparr>) True 3 None
             timedOutSession)) = CONNECTING"
  by (simp add: demo_defs session_defs)

text \<open>
  Claim C8, amended. For every partial configuration whose merge changes one of the five
  identity fields: if the state is not \<open>DISCONNECTED\<close>, \<open>setConfig\<close> first calls
  \<open>disconnect()\<close>, which closes the current socket if there is one. Let \<open>st\<close> be the state
  after that call; it is \<open>DISCONNECTED\<close> when the transport closes a connected socket within
  the call. Provided \<open>st\<close> is not \<open>CONNECTING\<close>: if all five identity fields of the merged
  configuration are populated, exactly one \<open>connect()\<close> is attempted, in state \<open>st\<close>, and
  otherwise no \<open>connect()\<close> is attempted and the state is set to \<open>DISCONNECTED\<close>. The
  configuration is the merged one in every case.
\<close>

theorem setConfig_critical_change:
  assumes "criticalChange (config s) (mergeConfig (config s) p)"
  shows
  "(connectionState s \<noteq> DISCONNECTED \<longrightarrow>
      (\<forall>k. socket s = Some k \<longrightarrow>
         (\<exists>rest. wire (snd (setConfig p ack now io s)) = wire s @ Close k # rest))) \<and>
   (ack \<and> socketConnected s \<longrightarrow> connectionState (disconnect ack s) = DISCONNECTED) \<and>
   (connectionState (disconnect ack s) \<noteq> CONNECTING \<and> populated (mergeConfig (config s) p) \<longrightarrow>
      (\<exists>s2. setConfig_prepare p ack s = (s2, True) \<and>
            connectionState s2 = connectionState (disconnect ack s) \<and>
            setConfig p ack now io s = (Some (fst (connect now io s2)), snd (connect now io s2)))) \<and>
   (connectionState (disconnect ack s) \<noteq> CONNECTING \<and> \<not> populated (mergeConfig (config s) p) \<longrightarrow>
      fst (setConfig p ack now io s) = None \<and>
      connectionState (snd (setConfig p ack now io s)) = DISCONNECTED) \<and>
   config (snd (setConfig p ack now io s)) = mergeConfig (config s) p"
proof -
  define s2 where
    "s2 = (if connectionState s \<noteq> DISCONNECTED then disconnect ack s else s)
            \<lparr>config := mergeConfig (config s) p\<rparr>"
  have st: "connectionState s2 = connectionState (disconnect ack s)"
    by (simp add: s2_def connectionState_disconnect)
  have cf: "config s2 = mergeConfig (config s) p"
    by (simp add: s2_def)
  have w2: "connectionState s \<noteq> DISCONNECTED \<Longrightarrow> socket s = Some k \<Longrightarrow>
            wire s2 = wire s @ [Close k]" for k
    by (simp add: s2_def wire_disconnect)
  have prep: "setConfig_prepare p ack s =
      (if connectionState s2 \<noteq> CONNECTING
       then if populated (config s2) then (s2, True) else (updateState DISCONNECTED s2, False)
       else (s2, False))"
    using setConfig_prepare_critical [OF assms, of ack] by (simp add: s2_def Let_def)
  have 1: "\<exists>rest. wire (snd (setConfig p ack now io s)) = wire s @ Close k # rest"
    if "connectionState s \<noteq> DISCONNECTED" "socket s = Some k" for k
  proof -
    obtain rest where "wire (snd (connect now io s2)) = wire s2 @ rest"
      using wire_connect by blast
    with w2 [OF that] show ?thesis
      by (auto simp: setConfig_def prep updateState_def split: prod.splits)
  qed
  have 2: "ack \<and> socketConnected s \<longrightarrow> connectionState (disconnect ack s) = DISCONNECTED"
    by (simp add: connectionState_disconnect)
  have 3: "\<exists>s2. setConfig_prepare p ack s = (s2, True) \<and>
            connectionState s2 = connectionState (disconnect ack s) \<and>
            setConfig p ack now io s = (Some (fst (connect now io s2)), snd (connect now io s2))"
    if "connectionState (disconnect ack s) \<noteq> CONNECTING" "populated (mergeConfig (config s) p)"
    using that st cf by (intro exI [of _ s2]) (simp add: setConfig_def prep split: prod.splits)
  have 4: "fst (setConfig p ack now io s) = None \<and>
      connectionState (snd (setConfig p ack now io s)) = DISCONNECTED"
    if "connectionState (disconnect ack s) \<noteq> CONNECTING" "\<not> populated (mergeConfig (config s) p)"
    using that st cf by (simp add: setConfig_def prep updateState_def)
  have 5: "config (snd (setConfig p ack now io s)) = mergeConfig (config s) p"
    using cf by (simp add: setConfig_def prep case_prod_unfold updateState_def)
  from 1 2 3 4 5 show ?thesis by blast
qed

theorem setConfig_critical_change_witness:
  "criticalChange (config demoSession)
     (mergeConfig (config demoSession)
        (noChange\<lparr>agentId_opt := Some ''B'', roomId_opt := Some ''B''\<rparr>)) \<and>
   connectionState demoSession \<noteq> DISCONNECTED \<and> socket demoSession = Some 0 \<and>
   socketConnected demoSession \<and>
   connectionState (disconnect True demoSession) \<noteq> CONNECTING \<and>
   populated (mergeConfig (config demoSession)
        (noChange\<lparr>agentId_opt := Some ''B'', roomId_opt := Some ''B''\<rparr>)) \<and>
   (\<exists>rest. wire (snd (setConfig (noChange\<lparr>agentId_opt := Some ''B'', roomId_opt := Some ''B''\<rparr>)
                          True 9 None demoSession)) = wire demoSession @ Close 0 # rest) \<and>
   (\<exists>s2. setConfig_prepare (noChange\<lparr>agentId_opt := Some ''B'', roomId_opt := Some ''B''\<rparr>) True
            demoSession = (s2, True) \<and>
         connectionState s2 = DISCONNECTED)"
proof -
  have h: "criticalChange (config demoSession)
     (mergeConfig (config demoSession)
        (noChange\<lparr>agentId_opt := Some ''B'', roomId_opt := Some ''B''\<rparr>))"
    by (simp add: demo_defs session_defs)
  have g: "connectionState demoSession \<noteq> DISCONNECTED" "socket demoSession = Some 0"
    "socketConnected demoSession" "connectionState (disconnect True demoSession) = DISCONNECTED"
    "populated (mergeConfig (config demoSession)
        (noChange\<lparr>agentId_opt := Some ''B'', roomId_opt := Some ''B''\<rparr>))"
    by (simp_all add: demo_defs session_defs)
  from setConfig_critical_change [OF h, of True 9 None] g h show ?thesis by auto
qed

subsection \<open>Filtering of inbound envelopes\<close>

lemma trim_empty_iff: "trim t = [] \<longleftrightarrow> list_all isWhite t"
proof
  assume "trim t = []"
  then have a: "\<forall>c \<in> set (dropWhile isWhite t). isWhite c"
    by (simp add: trim_def dropWhile_eq_Nil_conv)
  show "list_all isWhite t"
  proof (cases "dropWhile isWhite t")
    case Nil
    then show ?thesis by (simp add: dropWhile_eq_Nil_conv list_all_iff)
  next
    case (Cons c cs)
    then have "\<not> isWhite c" using hd_dropWhile [of isWhite t] by simp
    moreover have "isWhite c" using a Cons by simp
    ultimately show ?thesis by simp
  qed
next
  assume "list_all isWhite t"
  then have "dropWhile isWhite t = []"
    by (simp add: dropWhile_eq_Nil_conv list_all_iff)
  then show "trim t = []" by (simp add: trim_def del: dropWhile_eq_Nil_conv)
qed

lemma validReply_iff: "validReply s data \<longleftrightarrow> \<not> invalidEnvelope s data"
proof (cases "text_m data")
  case None
  then show ?thesis by (simp add: validReply_def invalidEnvelope_def)
next
  case (Some t)
  have "t = [] \<Longrightarrow> list_all isWhite t" by simp
  with Some show ?thesis
    by (auto simp: validReply_def invalidEnvelope_def trim_empty_iff)
qed

text \<open>
  Claim C3 (filtering). An envelope is invalid when its sender id is not the configured
  agent id or its text is absent, empty or made of white space only. Handling an invalid
  envelope changes nothing but the record of observer invocations, to which it adds one
  invocation of every registered message observer, in order, with that envelope: the
  message queue, the waiter list, every promise and every timer stay as they were. An
  envelope that is not invalid is appended to the queue before the drain loop runs; with
  no waiter pending it stays there.
\<close>

theorem invalid_envelope_filtered:
  "(invalidEnvelope s data \<longrightarrow>
      notifyMessageListeners data s =
        s\<lparr>calls := calls s @ map (\<lambda>l. MsgCall l data) (messageListeners s)\<rparr> \<and>
      messageQueue (notifyMessageListeners data s) = messageQueue s \<and>
      resolvers (notifyMessageListeners data s) = resolvers s \<and>
      promises (notifyMessageListeners data s) = promises s \<and>
      timers (notifyMessageListeners data s) = timers s \<and>
      (k < sockets s \<longrightarrow>
         handle (MessageBroadcast k data) s =
           s\<lparr>calls := calls s @ map (\<lambda>l. MsgCall l data) (messageListeners s)\<rparr>)) \<and>
   (\<not> invalidEnvelope s data \<longrightarrow>
      notifyMessageListeners data s =
        (drain (s\<lparr>messageQueue := messageQueue s @ [data]\<rparr>))
          \<lparr>calls := calls s @ map (\<lambda>l. MsgCall l data) (messageListeners s)\<rparr> \<and>
      (resolvers s = [] \<longrightarrow>
         messageQueue (notifyMessageListeners data s) = messageQueue s @ [data]))"
proof -
  have a: "notifyMessageListeners data s =
        s\<lparr>calls := calls s @ map (\<lambda>l. MsgCall l data) (messageListeners s)\<rparr>"
    if "invalidEnvelope s data"
    using that by (simp add: notifyMessageListeners_def validReply_iff)
  have b: "handle (MessageBroadcast k data) s = notifyMessageListeners data s" if "k < sockets s"
    using that by (simp add: handle_def onMessageBroadcast_def)
  have c: "notifyMessageListeners data s =
        (drain (s\<lparr>messageQueue := messageQueue s @ [data]\<rparr>))
          \<lparr>calls := calls s @ map (\<lambda>l. MsgCall l data) (messageListeners s)\<rparr>"
    if "\<not> invalidEnvelope s data"
    using that by (simp add: notifyMessageListeners_def validReply_iff Let_def)
  have d: "messageQueue (notifyMessageListeners data s) = messageQueue s @ [data]"
    if "\<not> invalidEnvelope s data" "resolvers s = []"
    using that by (simp add: c drain_stop)
  show ?thesis
    using a b c d by simp
qed

theorem invalid_envelope_filtered_witness:
  "invalidEnvelope (onMessage 1 demoSession) (reply ''A'' '' '') \<and>
   invalidEnvelope (onMessage 1 demoSession) (reply ''Z'' ''hi'') \<and>
   \<not> invalidEnvelope (onMessage 1 demoSession) (reply ''A'' ''hi'') \<and>
   0 < sockets (onMessage 1 demoSession) \<and> resolvers (onMessage 1 demoSession) = [] \<and>
   calls (handle (MessageBroadcast 0 (reply ''A'' '' '')) (onMessage 1 demoSession)) =
     [MsgCall 1 (reply ''A'' '' '')] \<and>
   messageQueue (notifyMessageListeners (reply ''Z'' ''hi'') (onMessage 1 demoSession)) = [] \<and>
   messageQueue (notifyMessageListeners (reply ''A'' ''hi'') (onMessage 1 demoSession)) =
     [reply ''A'' ''hi'']"
proof -
  have h: "invalidEnvelope (onMessage 1 demoSession) (reply ''A'' '' '')"
    "invalidEnvelope (onMessage 1 demoSession) (reply ''Z'' ''hi'')"
    "\<not> invalidEnvelope (onMessage 1 demoSession) (reply ''A'' ''hi'')"
    by (simp_all add: invalidEnvelope_def reply_def isWhite_def onMessage_def demo_defs
        session_defs)
  have g: "0 < sockets (onMessage 1 demoSession)" "resolvers (onMessage 1 demoSession) = []"
    "messageQueue (onMessage 1 demoSession) = []" "calls (onMessage 1 demoSession) = []"
    "messageListeners (onMessage 1 demoSession) = [1]"
    by (simp_all add: onMessage_def demo_defs session_defs)
  have 1: "calls (handle (MessageBroadcast 0 (reply ''A'' '' '')) (onMessage 1 demoSession)) =
     [MsgCall 1 (reply ''A'' '' '')]"
  proof -
    from invalid_envelope_filtered [of "onMessage 1 demoSession" "reply ''A'' '' ''" 0] h(1) g(1)
    have "handle (MessageBroadcast 0 (reply ''A'' '' '')) (onMessage 1 demoSession) =
           (onMessage 1 demoSession)\<lparr>calls := calls (onMessage 1 demoSession) @
              map (\<lambda>l. MsgCall l (reply ''A'' '' '')) (messageListeners (onMessage 1 demoSession))\<rparr>"
      by blast
    with g(4,5) show ?thesis by simp
  qed
  have 2: "messageQueue (notifyMessageListeners (reply ''Z'' ''hi'') (onMessage 1 demoSession)) = []"
  proof -
    from invalid_envelope_filtered [of "onMessage 1 demoSession" "reply ''Z'' ''hi''" 0] h(2)
    have "messageQueue (notifyMessageListeners (reply ''Z'' ''hi'') (onMessage 1 demoSession)) =
          messageQueue (onMessage 1 demoSession)"
      by blast
    with g(3) show ?thesis by simp
  qed
  have 3: "messageQueue (notifyMessageListeners (reply ''A'' ''hi'') (onMessage 1 demoSession)) =
     [reply ''A'' ''hi'']"
  proof -
    from invalid_envelope_filtered [of "onMessage 1 demoSession" "reply ''A'' ''hi''" 0] h(3) g(2)
    have "messageQueue (notifyMessageListeners (reply ''A'' ''hi'') (onMessage 1 demoSession)) =
          messageQueue (onMessage 1 demoSession) @ [reply ''A'' ''hi'']"
      by blast
    with g(3) show ?thesis by simp
  qed
  from h g(1,2) 1 2 3 show ?thesis by blast
qed

subsection \<open>Invariants of the waiter list\<close>

lemma wellFormed_lifecycle [simp]:
  "wellFormed (updateState st s) = wellFormed s"
  "wellFormed (handleError e s) = wellFormed s"
  "wellFormed (emit m s) = wellFormed s"
  "wellFormed (joinRoom s) = wellFormed s"
  "wellFormed (resolveConnect k s) = wellFormed s"
  "wellFormed (rejectConnect k e s) = wellFormed s"
  "wellFormed (snd (connect now io s)) = wellFormed s"
  "wellFormed (onConnect k now s) = wellFormed s"
  "wellFormed (onReconnectFailed k s) = wellFormed s"
  "wellFormed (onDisconnect k reason s) = wellFormed s"
  "wellFormed (connectionTimeoutFired k s) = wellFormed s"
  "wellFormed (disconnect ack s) = wellFormed s"
  "wellFormed (onMessage l s) = wellFormed s"
  "wellFormed (onStateChange l s) = wellFormed s"
  "wellFormed (onError l s) = wellFormed s"
  "wellFormed (snd (sendMessage messageText messageId now io s)) = wellFormed s"
  "wellFormed (snd (sendMessageResume messageText messageId k s)) = wellFormed s"
  by (simp_all add: wellFormed_def)

lemma retired_lifecycle [simp]:
  "retired w p (updateState st s) = retired w p s"
  "retired w p (handleError e s) = retired w p s"
  "retired w p (emit m s) = retired w p s"
  "retired w p (joinRoom s) = retired w p s"
  "retired w p (resolveConnect k s) = retired w p s"
  "retired w p (rejectConnect k e s) = retired w p s"
  "retired w p (snd (connect now io s)) = retired w p s"
  "retired w p (onConnect k now s) = retired w p s"
  "retired w p (onReconnectFailed k s) = retired w p s"
  "retired w p (onDisconnect k reason s) = retired w p s"
  "retired w p (connectionTimeoutFired k s) = retired w p s"
  "retired w p (disconnect ack s) = retired w p s"
  "retired w p (onMessage l s) = retired w p s"
  "retired w p (onStateChange l s) = retired w p s"
  "retired w p (onError l s) = retired w p s"
  "retired w p (snd (sendMessage messageText messageId now io s)) = retired w p s"
  "retired w p (snd (sendMessageResume messageText messageId k s)) = retired w p s"
  by (simp_all add: retired_def)

lemma fst_image_neq: "w \<notin> fst ` set rs \<Longrightarrow> (v, c) \<in> set rs \<Longrightarrow> v \<noteq> w"
  by force

lemma wellFormedI:
  assumes "distinct (map fst (resolvers s))"
    and "\<And>w c. (w, c) \<in> set (resolvers s) \<Longrightarrow> timers s w = Some c \<and> promises s w = Pending"
    and "\<And>w c. timers s w = Some c \<Longrightarrow> w < nextWaiter s"
  shows "wellFormed s"
  using assms by (auto simp: wellFormed_def)

lemma wellFormed_cong:
  "resolvers s' = resolvers s \<Longrightarrow> timers s' = timers s \<Longrightarrow> promises s' = promises s \<Longrightarrow>
   nextWaiter s' = nextWaiter s \<Longrightarrow> wellFormed s' = wellFormed s"
  by (simp add: wellFormed_def)

lemma wellFormedD:
  assumes "wellFormed s"
  shows "distinct (map fst (resolvers s))"
    and "(w, c) \<in> set (resolvers s) \<Longrightarrow> timers s w = Some c"
    and "(w, c) \<in> set (resolvers s) \<Longrightarrow> promises s w = Pending"
    and "timers s w = Some c \<Longrightarrow> w < nextWaiter s"
  using assms by (auto simp: wellFormed_def)

lemma wellFormed_fresh:
  "wellFormed s \<Longrightarrow> (w, c) \<in> set (resolvers s) \<Longrightarrow> w < nextWaiter s"
  by (auto simp: wellFormed_def)

lemma wellFormed_constructor: "wellFormed (constructor p)"
  by (simp add: wellFormed_def constructor_def)

lemma callResolver_promises:
  "promises (callResolver r m s) w =
     (if w = fst r \<and> promises s w = Pending then Fulfilled m else promises s w)"
  by (auto simp: callResolver_def resolve_def)

lemma callResolver_timers:
  "timers (callResolver r m s) w = (if w = fst r then None else timers s w)"
  by (simp add: callResolver_def resolve_def)

lemma drain_untouched:
  "w \<notin> fst ` set (resolvers s) \<Longrightarrow>
   promises (drain s) w = promises s w \<and> timers (drain s) w = timers s w \<and>
   w \<notin> fst ` set (resolvers (drain s))"
proof (induction s rule: drain_cases)
  case (stop s)
  then show ?case by (simp add: drain_stop)
next
  case (step s r rs m ms)
  from step.prems step.hyps(1) have "w \<noteq> fst r" "w \<notin> fst ` set rs" by auto
  with step.IH step.hyps show ?case
    by (simp add: drain_step callResolver_promises callResolver_timers)
qed

lemma wellFormed_callResolver:
  assumes "wellFormed s" "resolvers s = r # rs"
  shows "wellFormed (callResolver r m (s\<lparr>resolvers := rs, messageQueue := ms\<rparr>))"
proof (rule wellFormedI)
  from wellFormedD(1) [OF assms(1)] assms(2)
  have d: "fst r \<notin> fst ` set rs" "distinct (map fst rs)" by auto
  show "distinct (map fst (resolvers (callResolver r m (s\<lparr>resolvers := rs, messageQueue := ms\<rparr>))))"
    using d by simp
  show "timers (callResolver r m (s\<lparr>resolvers := rs, messageQueue := ms\<rparr>)) w = Some c \<and>
        promises (callResolver r m (s\<lparr>resolvers := rs, messageQueue := ms\<rparr>)) w = Pending"
    if "(w, c) \<in> set (resolvers (callResolver r m (s\<lparr>resolvers := rs, messageQueue := ms\<rparr>)))"
    for w c
  proof -
    from that have m: "(w, c) \<in> set rs" by simp
    from d(1) m have "w \<noteq> fst r" by (rule fst_image_neq)
    moreover from m assms(2) have "(w, c) \<in> set (resolvers s)" by simp
    ultimately show ?thesis
      using wellFormedD(2,3) [OF assms(1)]
      by (simp add: callResolver_promises callResolver_timers)
  qed
  show "w < nextWaiter (callResolver r m (s\<lparr>resolvers := rs, messageQueue := ms\<rparr>))"
    if "timers (callResolver r m (s\<lparr>resolvers := rs, messageQueue := ms\<rparr>)) w = Some c" for w c
    using that wellFormedD(4) [OF assms(1), of w c]
    by (simp add: callResolver_timers split: if_splits)
qed

lemma wellFormed_drain: "wellFormed s \<Longrightarrow> wellFormed (drain s)"
proof (induction s rule: drain_cases)
  case (stop s)
  then show ?case by (simp add: drain_stop)
next
  case (step s r rs m ms)
  from step.IH [OF wellFormed_callResolver [OF step.prems step.hyps(1)]] step.hyps
  show ?case by (simp add: drain_step)
qed

lemma retired_drain: "retired w p s \<Longrightarrow> retired w p (drain s)"
  using drain_untouched [of w s] by (simp add: retired_def)

lemma notifyMessageListeners_fields [simp]:
  "nextWaiter (notifyMessageListeners data s) = nextWaiter s"
  "config (notifyMessageListeners data s) = config s"
  by (simp_all add: notifyMessageListeners_def Let_def)

lemma wellFormed_notifyMessageListeners:
  "wellFormed s \<Longrightarrow> wellFormed (notifyMessageListeners data s)"
proof -
  assume a: "wellFormed s"
  then have "wellFormed (s\<lparr>messageQueue := messageQueue s @ [data]\<rparr>)"
    by (simp add: wellFormed_def)
  then have b: "wellFormed (drain (s\<lparr>messageQueue := messageQueue s @ [data]\<rparr>))"
    by (rule wellFormed_drain)
  have c: "wellFormed (t\<lparr>calls := x\<rparr>) = wellFormed t" for t x
    by (simp add: wellFormed_def)
  show ?thesis using a b by (simp add: notifyMessageListeners_def Let_def c)
qed

lemma retired_notifyMessageListeners:
  "retired w p s \<Longrightarrow> retired w p (notifyMessageListeners data s)"
proof -
  assume a: "retired w p s"
  then have "retired w p (s\<lparr>messageQueue := messageQueue s @ [data]\<rparr>)"
    by (simp add: retired_def)
  then have b: "retired w p (drain (s\<lparr>messageQueue := messageQueue s @ [data]\<rparr>))"
    by (rule retired_drain)
  have c: "retired w p (t\<lparr>calls := x\<rparr>) = retired w p t" for t x
    by (simp add: retired_def)
  show ?thesis using a b by (simp add: notifyMessageListeners_def Let_def c)
qed

lemma wellFormed_register:
  assumes "wellFormed s"
  shows "wellFormed (s\<lparr>nextWaiter := nextWaiter s + 1,
                        promises := (promises s)(nextWaiter s := Pending),
                        timers := (timers s)(nextWaiter s \<mapsto> c),
                        resolvers := resolvers s @ [(nextWaiter s, c)]\<rparr>)"
proof (rule wellFormedI)
  have f: "nextWaiter s \<notin> fst ` set (resolvers s)"
    using wellFormed_fresh [OF assms] by force
  show "distinct (map fst (resolvers (s\<lparr>nextWaiter := nextWaiter s + 1,
                        promises := (promises s)(nextWaiter s := Pending),
                        timers := (timers s)(nextWaiter s \<mapsto> c),
                        resolvers := resolvers s @ [(nextWaiter s, c)]\<rparr>)))"
    using wellFormedD(1) [OF assms] f by simp
  show "timers (s\<lparr>nextWaiter := nextWaiter s + 1,
                        promises := (promises s)(nextWaiter s := Pending),
                        timers := (timers s)(nextWaiter s \<mapsto> c),
                        resolvers := resolvers s @ [(nextWaiter s, c)]\<rparr>) w = Some c' \<and>
        promises (s\<lparr>nextWaiter := nextWaiter s + 1,
                        promises := (promises s)(nextWaiter s := Pending),
                        timers := (timers s)(nextWaiter s \<mapsto> c),
                        resolvers := resolvers s @ [(nextWaiter s, c)]\<rparr>) w = Pending"
    if "(w, c') \<in> set (resolvers (s\<lparr>nextWaiter := nextWaiter s + 1,
                        promises := (promises s)(nextWaiter s := Pending),
                        timers := (timers s)(nextWaiter s \<mapsto> c),
                        resolvers := resolvers s @ [(nextWaiter s, c)]\<rparr>))" for w c'
    using that f wellFormedD(2,3) [OF assms, of w c'] by force
  show "w < nextWaiter (s\<lparr>nextWaiter := nextWaiter s + 1,
                        promises := (promises s)(nextWaiter s := Pending),
                        timers := (timers s)(nextWaiter s \<mapsto> c),
                        resolvers := resolvers s @ [(nextWaiter s, c)]\<rparr>)"
    if "timers (s\<lparr>nextWaiter := nextWaiter s + 1,
                        promises := (promises s)(nextWaiter s := Pending),
                        timers := (timers s)(nextWaiter s \<mapsto> c),
                        resolvers := resolvers s @ [(nextWaiter s, c)]\<rparr>) w = Some c'" for w c'
    using that wellFormedD(4) [OF assms, of w c'] by (simp add: less_Suc_eq split: if_splits)
qed

lemma wellFormed_waitForNextMessage:
  assumes "wellFormed s"
  shows "wellFormed (snd (waitForNextMessage timeout s))"
proof (cases "messageQueue s")
  case Nil
  have "wellFormed (snd (waitForNextMessage timeout s)) =
        wellFormed (s\<lparr>nextWaiter := nextWaiter s + 1,
                        promises := (promises s)(nextWaiter s := Pending),
                        timers := (timers s)(nextWaiter s \<mapsto> WaitNext (waitTimeoutOf timeout s)),
                        resolvers := resolvers s @
                          [(nextWaiter s, WaitNext (waitTimeoutOf timeout s))]\<rparr>)"
    using Nil by (intro wellFormed_cong) (simp_all add: waitForNextMessage_def Let_def)
  with wellFormed_register [OF assms] show ?thesis by simp
next
  case (Cons m ms)
  have f: "nextWaiter s \<notin> fst ` set (resolvers s)"
    using wellFormed_fresh [OF assms] by force
  have "wellFormed (snd (waitForNextMessage timeout s)) =
        wellFormed (s\<lparr>nextWaiter := nextWaiter s + 1,
                        promises := (promises s)(nextWaiter s := Fulfilled m)\<rparr>)"
    using Cons
    by (intro wellFormed_cong) (simp_all add: waitForNextMessage_def resolve_def Let_def)
  moreover have "wellFormed (s\<lparr>nextWaiter := nextWaiter s + 1,
                      promises := (promises s)(nextWaiter s := Fulfilled m)\<rparr>)"
    using assms f unfolding wellFormed_def by (auto simp: less_Suc_eq) force+
  ultimately show ?thesis by simp
qed

lemma retired_waitForNextMessage:
  "retired w p s \<Longrightarrow> retired w p (snd (waitForNextMessage timeout s))"
  by (cases "messageQueue s")
    (auto simp: retired_def waitForNextMessage_def resolve_def Let_def)

lemma wellFormed_sendAndRegister:
  assumes "wellFormed s"
  shows "wellFormed (snd (sendAndRegister messageText messageId s))"
proof (cases "socket s")
  case (Some k)
  have e: "wellFormed (t\<lparr>wire := x\<rparr>) = wellFormed t" for t x
    by (simp add: wellFormed_def)
  have "wellFormed (snd (sendAndRegister messageText messageId s)) =
        wellFormed (s\<lparr>nextWaiter := nextWaiter s + 1,
                        promises := (promises s)(nextWaiter s := Pending),
                        timers := (timers s)(nextWaiter s \<mapsto> SendAwait messageId),
                        resolvers := resolvers s @ [(nextWaiter s, SendAwait messageId)]\<rparr>)"
    using Some by (intro wellFormed_cong) (simp_all add: sendAndRegister_def emit_def Let_def)
  with wellFormed_register [OF assms] show ?thesis by simp
next
  case None
  have f: "nextWaiter s \<notin> fst ` set (resolvers s)"
    using wellFormed_fresh [OF assms] by force
  then have g: "removeAll (nextWaiter s, SendAwait messageId) (resolvers s) = resolvers s"
    by (intro removeAll_id) force
  have "wellFormed (s\<lparr>nextWaiter := nextWaiter s + 1,
                      timers := (timers s)(nextWaiter s := None),
                      promises := (promises s)(nextWaiter s := Fulfilled m)\<rparr>)" for m
    using assms f unfolding wellFormed_def by (auto simp: less_Suc_eq) force+
  with None g show ?thesis
    by (simp add: sendAndRegister_def resolve_def Let_def)
qed

lemma retired_sendAndRegister:
  "retired w p s \<Longrightarrow> retired w p (snd (sendAndRegister messageText messageId s))"
  by (cases "socket s")
    (auto simp: retired_def sendAndRegister_def resolve_def emit_def Let_def)

lemma fireTimer_fields [simp]:
  "nextWaiter (fireTimer w s) = nextWaiter s"
  "config (fireTimer w s) = config s"
  "messageQueue (fireTimer w s) = messageQueue s"
  by (simp_all add: fireTimer_def waitTimeoutFired_def responseTimeoutFired_def resolve_def
      reject_def split: option.splits captured.splits)

lemma wellFormed_fireTimer:
  assumes "wellFormed s"
  shows "wellFormed (fireTimer w s)"
proof (cases "timers s w")
  case None
  with assms show ?thesis by (simp add: fireTimer_def)
next
  case (Some c)
  have sub: "wellFormed (s\<lparr>timers := (timers s)(w := None), resolvers := rs,
                         promises := (promises s)(w := p)\<rparr>)"
    if "distinct (map fst rs)" "set rs \<subseteq> set (resolvers s)" "w \<notin> fst ` set rs" for rs p
  proof (rule wellFormedI)
    show "distinct (map fst (resolvers (s\<lparr>timers := (timers s)(w := None), resolvers := rs,
                         promises := (promises s)(w := p)\<rparr>)))"
      using that by simp
    show "timers (s\<lparr>timers := (timers s)(w := None), resolvers := rs,
                         promises := (promises s)(w := p)\<rparr>) v = Some c' \<and>
          promises (s\<lparr>timers := (timers s)(w := None), resolvers := rs,
                         promises := (promises s)(w := p)\<rparr>) v = Pending"
      if "(v, c') \<in> set (resolvers (s\<lparr>timers := (timers s)(w := None), resolvers := rs,
                         promises := (promises s)(w := p)\<rparr>))" for v c'
    proof -
      from that have m: "(v, c') \<in> set rs" by simp
      from \<open>w \<notin> fst ` set rs\<close> m have "v \<noteq> w" by (rule fst_image_neq)
      moreover from m \<open>set rs \<subseteq> set (resolvers s)\<close> have "(v, c') \<in> set (resolvers s)" by blast
      ultimately show ?thesis using wellFormedD(2,3) [OF assms] by simp
    qed
    show "v < nextWaiter (s\<lparr>timers := (timers s)(w := None), resolvers := rs,
                         promises := (promises s)(w := p)\<rparr>)"
      if "timers (s\<lparr>timers := (timers s)(w := None), resolvers := rs,
                         promises := (promises s)(w := p)\<rparr>) v = Some c'" for v c'
      using that wellFormedD(4) [OF assms, of v c'] by (simp split: if_splits)
  qed
  have only: "c' = c" if "(w, c') \<in> set (resolvers s)" for c'
    using wellFormedD(2) [OF assms that] Some by simp
  have keep: "s\<lparr>timers := (timers s)(w := None)\<rparr> =
              s\<lparr>timers := (timers s)(w := None), resolvers := resolvers s,
                promises := (promises s)(w := promises s w)\<rparr>"
    by simp
  have gone: "w \<notin> fst ` set (resolvers s)" if "(w, c) \<notin> set (resolvers s)"
    using that only by force
  show ?thesis
  proof (cases c)
    case (WaitNext t)
    show ?thesis
    proof (cases "(w, c) \<in> set (resolvers s)")
      case True
      have r: "w \<notin> fst ` set (remove1 (w, c) (resolvers s))"
      proof
        assume "w \<in> fst ` set (remove1 (w, c) (resolvers s))"
        then obtain c' where m: "(w, c') \<in> set (remove1 (w, c) (resolvers s))" by force
        then have "(w, c') \<in> set (resolvers s)" by (rule set_remove1_subset [THEN subsetD])
        then have "c' = c" by (rule only)
        with m wellFormedD(1) [OF assms] show False
          by (simp add: distinct_map)
      qed
      have d: "distinct (map fst (remove1 (w, c) (resolvers s)))"
        using wellFormedD(1) [OF assms] by (auto simp: distinct_map intro: inj_on_diff)
      have "set (remove1 (w, c) (resolvers s)) \<subseteq> set (resolvers s)"
        by (rule set_remove1_subset)
      from sub [OF d this r] sub [OF d this r, of "promises s w"] True Some WaitNext
      show ?thesis
        by (simp add: fireTimer_def waitTimeoutFired_def reject_def)
    next
      case False
      from sub [OF wellFormedD(1) [OF assms] subset_refl gone [OF False], of "promises s w"]
        False Some WaitNext
      show ?thesis
        by (simp add: fireTimer_def waitTimeoutFired_def)
    qed
  next
    case (SendAwait mid)
    have r: "w \<notin> fst ` set (removeAll (w, c) (resolvers s))"
      using only by force
    have d: "distinct (map fst (removeAll (w, c) (resolvers s)))"
      using wellFormedD(1) [OF assms] by (simp add: removeAll_filter_not_eq distinct_map_filter)
    have "set (removeAll (w, c) (resolvers s)) \<subseteq> set (resolvers s)"
      by auto
    from sub [OF d this r] sub [OF d this r, of "promises s w"] Some SendAwait
    show ?thesis
      by (simp add: fireTimer_def responseTimeoutFired_def resolve_def)
  qed
qed

lemma retired_fireTimer: "retired w p s \<Longrightarrow> retired w p (fireTimer v s)"
proof (cases "timers s v")
  case None
  then show "retired w p s \<Longrightarrow> ?thesis" by (simp add: fireTimer_def)
next
  case (Some c)
  assume a: "retired w p s"
  with Some have "v \<noteq> w" by (auto simp: retired_def)
  with Some a show ?thesis
    by (cases c)
      (auto simp: retired_def fireTimer_def waitTimeoutFired_def responseTimeoutFired_def
        resolve_def reject_def dest: notin_set_remove1)
qed

lemma wellFormed_updates [simp]:
  "wellFormed (s\<lparr>connected := a\<rparr>) = wellFormed s"
  "wellFormed (s\<lparr>connTimers := b\<rparr>) = wellFormed s"
  "wellFormed (s\<lparr>config := c\<rparr>) = wellFormed s"
  by (simp_all add: wellFormed_def)

lemma retired_updates [simp]:
  "retired w p (s\<lparr>connected := a\<rparr>) = retired w p s"
  "retired w p (s\<lparr>connTimers := b\<rparr>) = retired w p s"
  "retired w p (s\<lparr>config := c\<rparr>) = retired w p s"
  by (simp_all add: retired_def)

lemma wellFormed_handle: "wellFormed s \<Longrightarrow> wellFormed (handle e s)"
  by (cases e)
    (simp_all add: handle_def onConnectError_def onReconnectAttempt_def onMessageBroadcast_def
      onMessageComplete_def wellFormed_notifyMessageListeners wellFormed_fireTimer)

lemma retired_handle: "retired w p s \<Longrightarrow> retired w p (handle e s)"
  by (cases e)
    (simp_all add: handle_def onConnectError_def onReconnectAttempt_def onMessageBroadcast_def
      onMessageComplete_def retired_notifyMessageListeners retired_fireTimer)

lemma wellFormed_run: "wellFormed s \<Longrightarrow> wellFormed (run es s)"
  by (induction es arbitrary: s) (simp_all add: wellFormed_handle)

lemma retired_run: "retired w p s \<Longrightarrow> retired w p (run es s)"
  by (induction es arbitrary: s) (simp_all add: retired_handle)

lemma wellFormed_sendWhenConnected:
  "wellFormed s \<Longrightarrow> wellFormed (snd (sendWhenConnected messageText messageId s))"
  using wellFormed_sendAndRegister [of s messageText messageId]
    wellFormed_sendAndRegister [of "joinRoom s" messageText messageId]
  by (simp add: sendWhenConnected_def case_prod_unfold)

lemma retired_sendWhenConnected:
  "retired w p s \<Longrightarrow> retired w p (snd (sendWhenConnected messageText messageId s))"
  using retired_sendAndRegister [of w p s messageText messageId]
    retired_sendAndRegister [of w p "joinRoom s" messageText messageId]
  by (simp add: sendWhenConnected_def case_prod_unfold)

lemma wellFormed_sendAfterConnect:
  "wellFormed s \<Longrightarrow> wellFormed (snd (sendAfterConnect messageText messageId s))"
  by (simp add: sendAfterConnect_def wellFormed_sendWhenConnected)

lemma retired_sendAfterConnect:
  "retired w p s \<Longrightarrow> retired w p (snd (sendAfterConnect messageText messageId s))"
  by (simp add: sendAfterConnect_def retired_sendWhenConnected)

lemma wellFormed_sendMessageAndGetResponse:
  assumes "wellFormed s"
  shows "wellFormed (snd (sendMessageAndGetResponse messageText messageId now io s))"
proof (cases "socketConnected s")
  case True
  with assms show ?thesis
    by (simp add: sendMessageAndGetResponse_def wellFormed_sendWhenConnected)
next
  case False
  obtain r s1 where c: "connect now io s = (r, s1)" by (cases "connect now io s")
  then have "s1 = snd (connect now io s)" by simp
  with assms have "wellFormed s1" by simp
  with False c show ?thesis
    by (cases r) (simp_all add: sendMessageAndGetResponse_def wellFormed_sendAfterConnect)
qed

lemma retired_sendMessageAndGetResponse:
  assumes "retired w p s"
  shows "retired w p (snd (sendMessageAndGetResponse messageText messageId now io s))"
proof (cases "socketConnected s")
  case True
  with assms show ?thesis
    by (simp add: sendMessageAndGetResponse_def retired_sendWhenConnected)
next
  case False
  obtain r s1 where c: "connect now io s = (r, s1)" by (cases "connect now io s")
  then have "s1 = snd (connect now io s)" by simp
  with assms have "retired w p s1" by simp
  with False c show ?thesis
    by (cases r) (simp_all add: sendMessageAndGetResponse_def retired_sendAfterConnect)
qed

lemma wellFormed_sendResume:
  "wellFormed s \<Longrightarrow> wellFormed (snd (sendResume messageText messageId k s))"
  by (simp add: sendResume_def wellFormed_sendAfterConnect split: promise.splits)

lemma retired_sendResume:
  "retired w p s \<Longrightarrow> retired w p (snd (sendResume messageText messageId k s))"
  by (simp add: sendResume_def retired_sendAfterConnect split: promise.splits)

lemma wellFormed_cleared:
  "wellFormed s \<Longrightarrow>
   wellFormed (s\<lparr>config := c, roomJoined := j, messageQueue := [], resolvers := []\<rparr>)"
  by (simp add: wellFormed_def)

lemma retired_cleared:
  "retired w p s \<Longrightarrow>
   retired w p (s\<lparr>config := c, roomJoined := j, messageQueue := [], resolvers := []\<rparr>)"
  by (simp add: retired_def)

lemma wellFormed_switchAgent:
  assumes "wellFormed s"
  shows "wellFormed (snd (switchAgent a r ack grace now io s))"
proof (cases "a = r")
  case False
  with assms show ?thesis by (simp add: switchAgent_def switchAgent_prepare_def)
next
  case True
  from assms have "wellFormed (if socketConnected s then run grace (disconnect ack s) else s)"
    by (simp add: wellFormed_run)
  then show ?thesis
    using True by (simp add: switchAgent_def switchAgent_prepare_def Let_def wellFormed_cleared)
qed

lemma retired_switchAgent:
  assumes "retired w p s"
  shows "retired w p (snd (switchAgent a r ack grace now io s))"
proof (cases "a = r")
  case False
  with assms show ?thesis by (simp add: switchAgent_def switchAgent_prepare_def)
next
  case True
  from assms have "retired w p (if socketConnected s then run grace (disconnect ack s) else s)"
    by (simp add: retired_run)
  then show ?thesis
    using True by (simp add: switchAgent_def switchAgent_prepare_def Let_def retired_cleared)
qed

lemma wellFormed_setConfig:
  "wellFormed s \<Longrightarrow> wellFormed (snd (setConfig p ack now io s))"
  by (simp add: setConfig_def setConfig_prepare_def Let_def case_prod_unfold)

lemma retired_setConfig:
  "retired w q s \<Longrightarrow> retired w q (snd (setConfig p ack now io s))"
  by (simp add: setConfig_def setConfig_prepare_def Let_def case_prod_unfold)

lemma wellFormed_step: "wellFormed s \<Longrightarrow> wellFormed (step a s)"
  by (cases a)
    (simp_all add: wellFormed_handle wellFormed_waitForNextMessage
      wellFormed_sendMessageAndGetResponse wellFormed_sendResume wellFormed_switchAgent
      wellFormed_setConfig)

lemma retired_step: "retired w p s \<Longrightarrow> retired w p (step a s)"
  by (cases a)
    (simp_all add: retired_handle retired_waitForNextMessage
      retired_sendMessageAndGetResponse retired_sendResume retired_switchAgent
      retired_setConfig)

lemma wellFormed_steps: "wellFormed s \<Longrightarrow> wellFormed (steps as s)"
  by (induction as arbitrary: s) (simp_all add: wellFormed_step)

lemma retired_steps: "retired w p s \<Longrightarrow> retired w p (steps as s)"
  by (induction as arbitrary: s) (simp_all add: retired_step)

lemma wellFormed_reachable: "wellFormed (steps as (constructor p))"
  by (rule wellFormed_steps) (rule wellFormed_constructor)

subsection \<open>Expiry and satisfaction of a waiter\<close>

lemma retiredI:
  assumes "wellFormed s" "timers s w = None" "w < nextWaiter s"
  shows "retired w (promises s w) s"
proof -
  have "w \<notin> fst ` set (resolvers s)"
  proof
    assume "w \<in> fst ` set (resolvers s)"
    then obtain c where "(w, c) \<in> set (resolvers s)" by force
    from wellFormedD(2) [OF assms(1) this] assms(2) show False by simp
  qed
  with assms show ?thesis by (simp add: retired_def)
qed

lemma timers_fireTimer: "timers (fireTimer w s) w = None"
  by (simp add: fireTimer_def waitTimeoutFired_def responseTimeoutFired_def resolve_def
      reject_def split: option.splits captured.splits)

lemma handle_WaiterTimer: "handle (WaiterTimer w) s = fireTimer w s"
  by (simp add: handle_def)

lemma fireTimer_cleared: "timers s w = None \<Longrightarrow> fireTimer w s = s"
  by (simp add: fireTimer_def)

lemma drain_timers:
  "distinct (map fst (resolvers s)) \<Longrightarrow> w \<in> fst ` set (resolvers s) \<Longrightarrow>
   w \<notin> fst ` set (resolvers (drain s)) \<Longrightarrow> timers (drain s) w = None"
proof (induction s rule: drain_cases)
  case (stop s)
  then show ?case by (simp add: drain_stop)
next
  case (step s r rs m ms)
  let ?s1 = "callResolver r m (s\<lparr>resolvers := rs, messageQueue := ms\<rparr>)"
  from step.prems(1) step.hyps(1) have d: "fst r \<notin> fst ` set rs" "distinct (map fst rs)"
    by auto
  have e: "drain s = drain ?s1" using step.hyps by (simp add: drain_step)
  show ?case
  proof (cases "w = fst r")
    case True
    with d have "w \<notin> fst ` set (resolvers ?s1)" by simp
    from drain_untouched [OF this] True show ?thesis
      by (simp add: e callResolver_timers)
  next
    case False
    with step.prems(2) step.hyps(1) have "w \<in> fst ` set (resolvers ?s1)" by auto
    with step.IH d step.prems(3) show ?thesis by (simp add: e)
  qed
qed

lemma notifyMessageListeners_satisfied:
  assumes "wellFormed s" "(w, c) \<in> set (resolvers s)"
    and "promises (notifyMessageListeners data s) w \<noteq> Pending"
  shows "retired w (promises (notifyMessageListeners data s) w) (notifyMessageListeners data s)"
proof -
  let ?s' = "notifyMessageListeners data s"
  have wf: "wellFormed ?s'" using assms(1) by (rule wellFormed_notifyMessageListeners)
  have v: "validReply s data"
  proof (rule ccontr)
    assume "\<not> validReply s data"
    with assms(3) wellFormedD(3) [OF assms(1,2)] show False
      by (simp add: notifyMessageListeners_def)
  qed
  let ?q = "s\<lparr>messageQueue := messageQueue s @ [data]\<rparr>"
  have gone: "w \<notin> fst ` set (resolvers ?s')"
  proof
    assume "w \<in> fst ` set (resolvers ?s')"
    then obtain c' where "(w, c') \<in> set (resolvers ?s')" by force
    from wellFormedD(3) [OF wf this] assms(3) show False by simp
  qed
  then have "w \<notin> fst ` set (resolvers (drain ?q))"
    using v by (simp add: notifyMessageListeners_def Let_def)
  moreover have "distinct (map fst (resolvers ?q))" "w \<in> fst ` set (resolvers ?q)"
    using wellFormedD(1) [OF assms(1)] assms(2) by (simp, force)
  ultimately have "timers (drain ?q) w = None" by (intro drain_timers)
  then have t: "timers ?s' w = None"
    using v by (simp add: notifyMessageListeners_def Let_def)
  have "w < nextWaiter ?s'" using wellFormed_fresh [OF assms(1,2)] by simp
  from retiredI [OF wf t this] show ?thesis .
qed

text \<open>
  Claim C5 (timeout cleanup), for every state \<open>s\<close> reached from a new session by any
  history of calls and events. If the timer of waiter \<open>w\<close> is armed and fires, then \<open>w\<close> is
  not in the waiter list afterwards, and whatever happens later (any further history, valid
  replies included) \<open>w\<close> never re-enters the list and the result of its promise stays as the
  timer left it. Conversely, if \<open>w\<close> is in the waiter list and an inbound envelope settles its
  promise, then its timer is cleared by that, stays cleared for ever after, and the event of
  that timer does nothing any more.
\<close>

theorem timeout_cleanup:
  assumes "s = steps hist (constructor p)"
  shows
  "(timers s w \<noteq> None \<longrightarrow>
      w \<notin> fst ` set (resolvers (handle (WaiterTimer w) s)) \<and>
      w \<notin> fst ` set (resolvers (steps later (handle (WaiterTimer w) s))) \<and>
      promises (steps later (handle (WaiterTimer w) s)) w =
        promises (handle (WaiterTimer w) s) w) \<and>
   ((w, c) \<in> set (resolvers s) \<and> promises (handle (MessageBroadcast k data) s) w \<noteq> Pending \<longrightarrow>
      timers (handle (MessageBroadcast k data) s) w = None \<and>
      timers (steps later (handle (MessageBroadcast k data) s)) w = None \<and>
      handle (WaiterTimer w) (steps later (handle (MessageBroadcast k data) s)) =
        steps later (handle (MessageBroadcast k data) s) \<and>
      promises (steps later (handle (MessageBroadcast k data) s)) w =
        promises (handle (MessageBroadcast k data) s) w)"
proof -
  have wf: "wellFormed s" unfolding assms by (rule wellFormed_reachable)
  have 1: "w \<notin> fst ` set (resolvers (handle (WaiterTimer w) s)) \<and>
      w \<notin> fst ` set (resolvers (steps later (handle (WaiterTimer w) s))) \<and>
      promises (steps later (handle (WaiterTimer w) s)) w =
        promises (handle (WaiterTimer w) s) w"
    if "timers s w \<noteq> None"
  proof -
    let ?s' = "fireTimer w s"
    from that obtain c' where "timers s w = Some c'" by auto
    from wellFormedD(4) [OF wf this] have "w < nextWaiter ?s'" by simp
    from retiredI [OF wellFormed_fireTimer [OF wf] timers_fireTimer this]
    have r: "retired w (promises ?s' w) ?s'" .
    from r retired_steps [OF r, of later] show ?thesis
      by (simp add: handle_WaiterTimer retired_def)
  qed
  have 2: "timers (handle (MessageBroadcast k data) s) w = None \<and>
      timers (steps later (handle (MessageBroadcast k data) s)) w = None \<and>
      handle (WaiterTimer w) (steps later (handle (MessageBroadcast k data) s)) =
        steps later (handle (MessageBroadcast k data) s) \<and>
      promises (steps later (handle (MessageBroadcast k data) s)) w =
        promises (handle (MessageBroadcast k data) s) w"
    if m: "(w, c) \<in> set (resolvers s)"
      and n: "promises (handle (MessageBroadcast k data) s) w \<noteq> Pending"
  proof -
    have k: "k < sockets s"
    proof (rule ccontr)
      assume "\<not> k < sockets s"
      with n wellFormedD(3) [OF wf m] show False by (simp add: handle_def)
    qed
    then have h: "handle (MessageBroadcast k data) s = notifyMessageListeners data s"
      by (simp add: handle_def onMessageBroadcast_def)
    from n have "promises (notifyMessageListeners data s) w \<noteq> Pending" by (simp add: h)
    from notifyMessageListeners_satisfied [OF wf m this]
    have r: "retired w (promises (notifyMessageListeners data s) w)
               (notifyMessageListeners data s)" .
    from r retired_steps [OF r, of later] show ?thesis
      by (simp add: h retired_def handle_WaiterTimer fireTimer_cleared)
  qed
  from 1 2 show ?thesis by blast
qed

theorem timeout_cleanup_witness:
  "timers waitingSession 0 \<noteq> None \<and>
   (0, WaitNext 90000) \<in> set (resolvers waitingSession) \<and>
   promises (handle (MessageBroadcast 0 (reply ''A'' ''hi'')) waitingSession) 0 \<noteq> Pending \<and>
   0 \<notin> fst ` set (resolvers (handle (WaiterTimer 0) waitingSession)) \<and>
   promises (steps [Deliver (MessageBroadcast 0 (reply ''A'' ''late''))]
               (handle (WaiterTimer 0) waitingSession)) 0 =
     promises (handle (WaiterTimer 0) waitingSession) 0 \<and>
   timers (handle (MessageBroadcast 0 (reply ''A'' ''hi'')) waitingSession) 0 = None \<and>
   handle (WaiterTimer 0)
     (steps [] (handle (MessageBroadcast 0 (reply ''A'' ''hi'')) waitingSession)) =
     steps [] (handle (MessageBroadcast 0 (reply ''A'' ''hi'')) waitingSession)"
proof -
  have h: "timers waitingSession 0 \<noteq> None"
    "(0, WaitNext 90000) \<in> set (resolvers waitingSession)"
    by (simp_all add: waitingSession_def demo_defs session_defs waitForNextMessage_def
        waitTimeoutOf_def Let_def)
  have g: "promises (handle (MessageBroadcast 0 (reply ''A'' ''hi'')) waitingSession) 0 \<noteq> Pending"
    by (simp add: waitingSession_def demo_defs session_defs waitForNextMessage_def
        waitTimeoutOf_def Let_def onMessageBroadcast_def notifyMessageListeners_def
        validReply_def trim_def isWhite_def reply_def drain.simps callResolver_def resolve_def)
  from timeout_cleanup [OF waitingSession_def, of 0
      "[Deliver (MessageBroadcast 0 (reply ''A'' ''late''))]" "WaitNext 90000" 0
      "reply ''A'' ''hi''"]
    timeout_cleanup [OF waitingSession_def, of 0 "[]" "WaitNext 90000" 0 "reply ''A'' ''hi''"]
    h g
  show ?thesis by blast
qed

subsection \<open>Waiting through quiet events\<close>

lemma waitingOn_lifecycle [simp]:
  "waitingOn w c (updateState st s) = waitingOn w c s"
  "waitingOn w c (handleError e s) = waitingOn w c s"
  "waitingOn w c (emit m s) = waitingOn w c s"
  "waitingOn w c (joinRoom s) = waitingOn w c s"
  "waitingOn w c (resolveConnect k s) = waitingOn w c s"
  "waitingOn w c (rejectConnect k e s) = waitingOn w c s"
  "waitingOn w c (snd (connect now io s)) = waitingOn w c s"
  "waitingOn w c (onConnect k now s) = waitingOn w c s"
  "waitingOn w c (onReconnectFailed k s) = waitingOn w c s"
  "waitingOn w c (onDisconnect k reason s) = waitingOn w c s"
  "waitingOn w c (connectionTimeoutFired k s) = waitingOn w c s"
  "waitingOn w c (disconnect ack s) = waitingOn w c s"
  "waitingOn w c (onMessage l s) = waitingOn w c s"
  "waitingOn w c (onStateChange l s) = waitingOn w c s"
  "waitingOn w c (onError l s) = waitingOn w c s"
  "waitingOn w c (snd (sendMessage messageText messageId now io s)) = waitingOn w c s"
  "waitingOn w c (snd (sendMessageResume messageText messageId k s)) = waitingOn w c s"
  by (simp_all add: waitingOn_def)

lemma unfailing_lifecycle [simp]:
  "unfailing w (updateState st s) = unfailing w s"
  "unfailing w (handleError e s) = unfailing w s"
  "unfailing w (emit m s) = unfailing w s"
  "unfailing w (joinRoom s) = unfailing w s"
  "unfailing w (resolveConnect k s) = unfailing w s"
  "unfailing w (rejectConnect k e s) = unfailing w s"
  "unfailing w (snd (connect now io s)) = unfailing w s"
  "unfailing w (onConnect k now s) = unfailing w s"
  "unfailing w (onReconnectFailed k s) = unfailing w s"
  "unfailing w (onDisconnect k reason s) = unfailing w s"
  "unfailing w (connectionTimeoutFired k s) = unfailing w s"
  "unfailing w (disconnect ack s) = unfailing w s"
  "unfailing w (onMessage l s) = unfailing w s"
  "unfailing w (onStateChange l s) = unfailing w s"
  "unfailing w (onError l s) = unfailing w s"
  "unfailing w (snd (sendMessage messageText messageId now io s)) = unfailing w s"
  "unfailing w (snd (sendMessageResume messageText messageId k s)) = unfailing w s"
  by (simp_all add: unfailing_def)

lemma waitingOn_updates [simp]:
  "waitingOn w c (s\<lparr>connected := a\<rparr>) = waitingOn w c s"
  "waitingOn w c (s\<lparr>connTimers := b\<rparr>) = waitingOn w c s"
  "waitingOn w c (s\<lparr>calls := d\<rparr>) = waitingOn w c s"
  by (simp_all add: waitingOn_def)

lemma unfailing_updates [simp]:
  "unfailing w (s\<lparr>connected := a\<rparr>) = unfailing w s"
  "unfailing w (s\<lparr>connTimers := b\<rparr>) = unfailing w s"
  "unfailing w (s\<lparr>calls := d\<rparr>) = unfailing w s"
  "unfailing w (s\<lparr>config := g\<rparr>) = unfailing w s"
  "unfailing w (s\<lparr>messageQueue := q\<rparr>) = unfailing w s"
  by (simp_all add: unfailing_def)

lemma config_handle [simp]: "config (handle e s) = config s"
  by (cases e)
    (simp_all add: handle_def onConnectError_def onReconnectAttempt_def onMessageBroadcast_def
      onMessageComplete_def)

lemma config_run [simp]: "config (run es s) = config s"
  by (induction es arbitrary: s) simp_all

lemma validReply_config: "config s' = config s \<Longrightarrow> validReply s' data = validReply s data"
  by (simp add: validReply_def split: option.splits)

lemma quiet_config: "config s' = config s \<Longrightarrow> quiet s' w e = quiet s w e"
  by (simp add: quiet_def validReply_config [of s' s] split: event.splits)

lemma waitingOn_fireTimer:
  assumes "waitingOn w c s" "v \<noteq> w"
  shows "waitingOn w c (fireTimer v s)"
proof (cases "timers s v")
  case None
  with assms show ?thesis by (simp add: fireTimer_def)
next
  case (Some c')
  have "(w, c) \<in> set (remove1 (v, c') (resolvers s))"
    using assms by (simp add: waitingOn_def)
  with Some assms show ?thesis
    by (cases c')
      (simp_all add: waitingOn_def fireTimer_def waitTimeoutFired_def responseTimeoutFired_def
        resolve_def reject_def)
qed

lemma waitingOn_handle:
  assumes "waitingOn w c s" "quiet s w e"
  shows "waitingOn w c (handle e s)"
  using assms
  by (cases e)
    (simp_all add: handle_def onConnectError_def onReconnectAttempt_def onMessageBroadcast_def
      onMessageComplete_def quiet_def notifyMessageListeners_def waitingOn_fireTimer)

lemma waitingOn_run:
  "waitingOn w c s \<Longrightarrow> list_all (quiet s w) es \<Longrightarrow> waitingOn w c (run es s)"
proof (induction es arbitrary: s)
  case Nil
  then show ?case by simp
next
  case (Cons e es)
  have "list_all (quiet (handle e s) w) es = list_all (quiet s w) es"
    by (simp add: list_all_iff quiet_config [of "handle e s" s])
  with Cons show ?case by (simp add: waitingOn_handle)
qed

lemma expire_sendAwait:
  "waitingOn w (SendAwait mid) s \<Longrightarrow>
   promises (fireTimer w s) w =
     Fulfilled (errorResult (responseTimeoutMsg (responseTimeout (config s)) mid) mid)"
  by (simp add: waitingOn_def fireTimer_def responseTimeoutFired_def resolve_def)

lemma expire_waitNext:
  "waitingOn w (WaitNext t) s \<Longrightarrow>
   promises (fireTimer w s) w = Failed (WaitTimeout (agentId (config s)) t)"
  by (simp add: waitingOn_def fireTimer_def waitTimeoutFired_def reject_def)

lemma sendAndRegister_waiting:
  assumes "socket s \<noteq> None" "sendAndRegister messageText messageId s = (w, s1)"
  shows "waitingOn w (SendAwait messageId) s1 \<and> config s1 = config s \<and> w < nextWaiter s1"
  using assms by (auto simp: sendAndRegister_def emit_def waitingOn_def Let_def)

lemma sendWhenConnected_waiting:
  assumes "socketConnected s"
    and "sendWhenConnected messageText messageId s = (SendAwaitsReply w, s1)"
  shows "waitingOn w (SendAwait messageId) s1 \<and> config s1 = config s \<and> w < nextWaiter s1"
proof -
  from assms(1) have a: "socket s \<noteq> None" "socket (joinRoom s) \<noteq> None"
    by (auto simp: socketConnected_def joinRoom_def emit_def split: option.splits)
  have b: "config (joinRoom s) = config s" by simp
  from assms(2) consider
    "sendAndRegister messageText messageId s = (w, s1)" |
    "sendAndRegister messageText messageId (joinRoom s) = (w, s1)"
    by (auto simp: sendWhenConnected_def split: if_splits prod.splits)
  then show ?thesis
  proof cases
    case 1
    from sendAndRegister_waiting [OF a(1) 1] show ?thesis .
  next
    case 2
    from sendAndRegister_waiting [OF a(2) 2] b show ?thesis by simp
  qed
qed

lemma sendAfterConnect_waiting:
  assumes "sendAfterConnect messageText messageId s = (SendAwaitsReply w, s1)"
  shows "waitingOn w (SendAwait messageId) s1 \<and> config s1 = config s \<and> w < nextWaiter s1"
proof -
  from assms have "socketConnected s"
    "sendWhenConnected messageText messageId s = (SendAwaitsReply w, s1)"
    by (auto simp: sendAfterConnect_def split: if_splits)
  then show ?thesis by (rule sendWhenConnected_waiting)
qed

lemma sendMessageAndGetResponse_waiting:
  assumes "sendMessageAndGetResponse messageText messageId now io s = (SendAwaitsReply w, s1)"
  shows "waitingOn w (SendAwait messageId) s1 \<and> config s1 = config s \<and> w < nextWaiter s1"
proof (cases "socketConnected s")
  case True
  with assms have "sendWhenConnected messageText messageId s = (SendAwaitsReply w, s1)"
    by (simp add: sendMessageAndGetResponse_def)
  with True show ?thesis by (rule sendWhenConnected_waiting)
next
  case False
  obtain r s0 where c: "connect now io s = (r, s0)" by (cases "connect now io s")
  then have "s0 = snd (connect now io s)" by simp
  then have cf: "config s0 = config s" by simp
  from False c assms have "sendAfterConnect messageText messageId s0 = (SendAwaitsReply w, s1)"
    by (cases r) (simp_all add: sendMessageAndGetResponse_def)
  from sendAfterConnect_waiting [OF this] cf show ?thesis by simp
qed

lemma sendResume_waiting:
  assumes "sendResume messageText messageId k s = (SendAwaitsReply w, s1)"
  shows "waitingOn w (SendAwait messageId) s1 \<and> config s1 = config s \<and> w < nextWaiter s1"
proof -
  from assms have "sendAfterConnect messageText messageId s = (SendAwaitsReply w, s1)"
    by (simp add: sendResume_def split: promise.splits)
  then show ?thesis by (rule sendAfterConnect_waiting)
qed

lemma waitForNextMessage_waiting:
  assumes "messageQueue s = []" "waitForNextMessage timeout s = (w, s1)"
  shows "waitingOn w (WaitNext (waitTimeoutOf timeout s)) s1 \<and> config s1 = config s"
  using assms by (auto simp: waitForNextMessage_def waitingOn_def Let_def)

subsection \<open>Promises of send-and-await never fail\<close>

lemma unfailing_drain: "unfailing w s \<Longrightarrow> unfailing w (drain s)"
proof (induction s rule: drain_cases)
  case (stop s)
  then show ?case by (simp add: drain_stop)
next
  case (step s r rs m ms)
  from step.prems
  have "unfailing w (callResolver r m (s\<lparr>resolvers := rs, messageQueue := ms\<rparr>))"
    by (auto simp: unfailing_def callResolver_promises callResolver_timers)
  with step.IH step.hyps show ?case by (simp add: drain_step)
qed

lemma unfailing_waitForNextMessage:
  "unfailing w s \<Longrightarrow> unfailing w (snd (waitForNextMessage timeout s))"
  by (cases "messageQueue s")
    (auto simp: unfailing_def waitForNextMessage_def resolve_def Let_def)

lemma unfailing_sendAndRegister:
  "unfailing w s \<Longrightarrow> unfailing w (snd (sendAndRegister messageText messageId s))"
  by (cases "socket s")
    (auto simp: unfailing_def sendAndRegister_def resolve_def emit_def Let_def)

lemma unfailing_fireTimer: "unfailing w s \<Longrightarrow> unfailing w (fireTimer v s)"
proof (cases "timers s v")
  case None
  then show "unfailing w s \<Longrightarrow> ?thesis" by (simp add: fireTimer_def)
next
  case (Some c)
  assume a: "unfailing w s"
  with Some show ?thesis
    by (cases c)
      (auto simp: unfailing_def fireTimer_def waitTimeoutFired_def responseTimeoutFired_def
        resolve_def reject_def)
qed

lemma unfailing_notifyMessageListeners:
  "unfailing w s \<Longrightarrow> unfailing w (notifyMessageListeners data s)"
proof -
  assume a: "unfailing w s"
  then have "unfailing w (s\<lparr>messageQueue := messageQueue s @ [data]\<rparr>)"
    by (simp add: unfailing_def)
  then have b: "unfailing w (drain (s\<lparr>messageQueue := messageQueue s @ [data]\<rparr>))"
    by (rule unfailing_drain)
  have c: "unfailing w (t\<lparr>calls := x\<rparr>) = unfailing w t" for t x
    by (simp add: unfailing_def)
  show ?thesis using a b by (simp add: notifyMessageListeners_def Let_def c)
qed

lemma unfailing_handle: "unfailing w s \<Longrightarrow> unfailing w (handle e s)"
  by (cases e)
    (simp_all add: handle_def onConnectError_def onReconnectAttempt_def onMessageBroadcast_def
      onMessageComplete_def unfailing_notifyMessageListeners unfailing_fireTimer)

lemma unfailing_run: "unfailing w s \<Longrightarrow> unfailing w (run es s)"
  by (induction es arbitrary: s) (simp_all add: unfailing_handle)

lemma unfailing_sendWhenConnected:
  "unfailing w s \<Longrightarrow> unfailing w (snd (sendWhenConnected messageText messageId s))"
  using unfailing_sendAndRegister [of w s messageText messageId]
    unfailing_sendAndRegister [of w "joinRoom s" messageText messageId]
  by (simp add: sendWhenConnected_def case_prod_unfold)

lemma unfailing_sendAfterConnect:
  "unfailing w s \<Longrightarrow> unfailing w (snd (sendAfterConnect messageText messageId s))"
  by (simp add: sendAfterConnect_def unfailing_sendWhenConnected)

lemma unfailing_sendMessageAndGetResponse:
  assumes "unfailing w s"
  shows "unfailing w (snd (sendMessageAndGetResponse messageText messageId now io s))"
proof (cases "socketConnected s")
  case True
  with assms show ?thesis
    by (simp add: sendMessageAndGetResponse_def unfailing_sendWhenConnected)
next
  case False
  obtain r s1 where c: "connect now io s = (r, s1)" by (cases "connect now io s")
  then have "s1 = snd (connect now io s)" by simp
  with assms have "unfailing w s1" by simp
  with False c show ?thesis
    by (cases r) (simp_all add: sendMessageAndGetResponse_def unfailing_sendAfterConnect)
qed

lemma unfailing_sendResume:
  "unfailing w s \<Longrightarrow> unfailing w (snd (sendResume messageText messageId k s))"
  by (simp add: sendResume_def unfailing_sendAfterConnect split: promise.splits)

lemma unfailing_cleared:
  "unfailing w s \<Longrightarrow>
   unfailing w (s\<lparr>config := c, roomJoined := j, messageQueue := [], resolvers := []\<rparr>)"
  by (simp add: unfailing_def)

lemma unfailing_switchAgent:
  assumes "unfailing w s"
  shows "unfailing w (snd (switchAgent a r ack grace now io s))"
proof (cases "a = r")
  case False
  with assms show ?thesis by (simp add: switchAgent_def switchAgent_prepare_def)
next
  case True
  from assms have "unfailing w (if socketConnected s then run grace (disconnect ack s) else s)"
    by (simp add: unfailing_run)
  then show ?thesis
    using True by (simp add: switchAgent_def switchAgent_prepare_def Let_def unfailing_cleared)
qed

lemma unfailing_setConfig:
  "unfailing w s \<Longrightarrow> unfailing w (snd (setConfig p ack now io s))"
  by (simp add: setConfig_def setConfig_prepare_def Let_def case_prod_unfold)

lemma unfailing_step: "unfailing w s \<Longrightarrow> unfailing w (step a s)"
  by (cases a)
    (simp_all add: unfailing_handle unfailing_waitForNextMessage
      unfailing_sendMessageAndGetResponse unfailing_sendResume unfailing_switchAgent
      unfailing_setConfig)

lemma unfailing_steps: "unfailing w s \<Longrightarrow> unfailing w (steps as s)"
  by (induction as arbitrary: s) (simp_all add: unfailing_step)


subsection \<open>Connect promises fail with connect errors only\<close>

lemma connPromises_waiters [simp]:
  "connPromises (snd (waitForNextMessage timeout s)) = connPromises s"
  "connPromises (snd (sendAndRegister messageText messageId s)) = connPromises s"
  by (simp_all add: waitForNextMessage_def sendAndRegister_def resolve_def emit_def Let_def
      split: list.splits option.splits)

lemma connInv_cong: "connPromises s' = connPromises s \<Longrightarrow> connInv s' = connInv s"
  by (simp add: connInv_def)

lemma connInv_drain: "connInv s \<Longrightarrow> connInv (drain s)"
  by (simp add: connInv_cong [of "drain s" s])

lemma connInv_fireTimer: "connInv s \<Longrightarrow> connInv (fireTimer w s)"
  by (simp add: connInv_cong [of "fireTimer w s" s])

lemma connInv_waitForNextMessage:
  "connInv s \<Longrightarrow> connInv (snd (waitForNextMessage timeout s))"
  by (simp add: connInv_cong [of "snd (waitForNextMessage timeout s)" s])

lemma connInv_sendAndRegister:
  "connInv s \<Longrightarrow> connInv (snd (sendAndRegister messageText messageId s))"
  by (simp add: connInv_cong [of "snd (sendAndRegister messageText messageId s)" s])

lemma connInv_constructor: "connInv (constructor p)"
  by (simp add: connInv_def constructor_def)

lemma connInv_updates [simp]:
  "connInv (s\<lparr>connected := a\<rparr>) = connInv s"
  "connInv (s\<lparr>connTimers := b\<rparr>) = connInv s"
  "connInv (s\<lparr>config := c\<rparr>) = connInv s"
  "connInv (updateState st s) = connInv s"
  "connInv (handleError e s) = connInv s"
  "connInv (joinRoom s) = connInv s"
  "connInv (onMessage l s) = connInv s"
  "connInv (onStateChange l s) = connInv s"
  "connInv (onError l s) = connInv s"
  "connInv (onDisconnect k reason s) = connInv s"
  "connInv (disconnect ack s) = connInv s"
  by (simp_all add: connInv_def onMessage_def onStateChange_def onError_def onDisconnect_def
      disconnect_def Let_def split: option.splits)

lemma connInv_lifecycle [simp]:
  "connInv s \<Longrightarrow> connInv (resolveConnect k s)"
  "connInv s \<Longrightarrow> connectFailure e \<Longrightarrow> connInv (rejectConnect k e s)"
  "connInv s \<Longrightarrow> connInv (onConnect k now s)"
  "connInv s \<Longrightarrow> connInv (onReconnectFailed k s)"
  "connInv s \<Longrightarrow> connInv (connectionTimeoutFired k s)"
  "connInv s \<Longrightarrow> connInv (snd (connect now io s))"
  by (auto simp: connInv_def connPromises_resolveConnect connPromises_rejectConnect
      onConnect_def onReconnectFailed_def connectionTimeoutFired_def connectFailure_def
      connect_def Let_def split: option.splits)

lemma connInv_sendMessage [simp]:
  "connInv s \<Longrightarrow> connInv (snd (sendMessageResume messageText messageId k s))"
  "connInv s \<Longrightarrow> connInv (snd (sendMessage messageText messageId now io s))"
proof -
  have a: "connInv (snd (sendAfterAwait messageText messageId t)) = connInv t" for t
    by (simp add: sendAfterAwait_def sendJoined_def emit_def connInv_def joinRoom_def
        split: option.splits)
  assume i: "connInv s"
  then show "connInv (snd (sendMessageResume messageText messageId k s))"
    by (simp add: sendMessageResume_def a split: promise.splits)
  obtain r s1 where c: "connect now io s = (r, s1)" by (cases "connect now io s")
  then have "s1 = snd (connect now io s)" by simp
  with i have "connInv s1" by simp
  with i c show "connInv (snd (sendMessage messageText messageId now io s))"
    by (simp add: sendMessage_def a split: connect_result.splits)
qed

lemma connInv_notifyMessageListeners:
  "connInv s \<Longrightarrow> connInv (notifyMessageListeners data s)"
proof -
  assume a: "connInv s"
  then have "connInv (s\<lparr>messageQueue := messageQueue s @ [data]\<rparr>)"
    by (simp add: connInv_def)
  then have b: "connInv (drain (s\<lparr>messageQueue := messageQueue s @ [data]\<rparr>))"
    by (rule connInv_drain)
  have c: "connInv (t\<lparr>calls := x\<rparr>) = connInv t" for t x
    by (simp add: connInv_def)
  show ?thesis using a b by (simp add: notifyMessageListeners_def Let_def c)
qed

lemma connInv_handle: "connInv s \<Longrightarrow> connInv (handle e s)"
  by (cases e)
    (simp_all add: handle_def onConnectError_def onReconnectAttempt_def onMessageBroadcast_def
      onMessageComplete_def connInv_notifyMessageListeners connInv_fireTimer)

lemma connInv_run: "connInv s \<Longrightarrow> connInv (run es s)"
  by (induction es arbitrary: s) (simp_all add: connInv_handle)

lemma connInv_sendWhenConnected:
  "connInv s \<Longrightarrow> connInv (snd (sendWhenConnected messageText messageId s))"
  using connInv_sendAndRegister [of s messageText messageId]
    connInv_sendAndRegister [of "joinRoom s" messageText messageId]
  by (simp add: sendWhenConnected_def case_prod_unfold)

lemma connInv_sendAfterConnect:
  "connInv s \<Longrightarrow> connInv (snd (sendAfterConnect messageText messageId s))"
  by (simp add: sendAfterConnect_def connInv_sendWhenConnected)

lemma connInv_sendMessageAndGetResponse:
  assumes "connInv s"
  shows "connInv (snd (sendMessageAndGetResponse messageText messageId now io s))"
proof (cases "socketConnected s")
  case True
  with assms show ?thesis
    by (simp add: sendMessageAndGetResponse_def connInv_sendWhenConnected)
next
  case False
  obtain r s1 where c: "connect now io s = (r, s1)" by (cases "connect now io s")
  then have "s1 = snd (connect now io s)" by simp
  with assms have "connInv s1" by simp
  with False c show ?thesis
    by (cases r) (simp_all add: sendMessageAndGetResponse_def connInv_sendAfterConnect)
qed

lemma connInv_sendResume:
  "connInv s \<Longrightarrow> connInv (snd (sendResume messageText messageId k s))"
  by (simp add: sendResume_def connInv_sendAfterConnect split: promise.splits)

lemma connInv_cleared:
  "connInv s \<Longrightarrow>
   connInv (s\<lparr>config := c, roomJoined := j, messageQueue := [], resolvers := []\<rparr>)"
  by (simp add: connInv_def)

lemma connInv_switchAgent:
  assumes "connInv s"
  shows "connInv (snd (switchAgent a r ack grace now io s))"
proof (cases "a = r")
  case False
  with assms show ?thesis by (simp add: switchAgent_def switchAgent_prepare_def)
next
  case True
  from assms have "connInv (if socketConnected s then run grace (disconnect ack s) else s)"
    by (simp add: connInv_run)
  then show ?thesis
    using True by (simp add: switchAgent_def switchAgent_prepare_def Let_def connInv_cleared)
qed

lemma connInv_setConfig:
  "connInv s \<Longrightarrow> connInv (snd (setConfig p ack now io s))"
  by (simp add: setConfig_def setConfig_prepare_def Let_def case_prod_unfold)

lemma connInv_step: "connInv s \<Longrightarrow> connInv (step a s)"
  by (cases a)
    (simp_all add: connInv_handle connInv_waitForNextMessage
      connInv_sendMessageAndGetResponse connInv_sendResume connInv_switchAgent
      connInv_setConfig)

lemma connInv_steps: "connInv s \<Longrightarrow> connInv (steps as s)"
  by (induction as arbitrary: s) (simp_all add: connInv_step)

lemma connInv_reachable: "connInv (steps as (constructor p))"
  by (rule connInv_steps) (rule connInv_constructor)

subsection \<open>Timeouts\<close>

lemma errorResult_shape [simp]:
  "error (errorResult msg rid) = Some msg"
  "text_m (errorResult msg rid) = None"
  "status (errorResult msg rid) = Some ''error''"
  by (simp_all add: errorResult_def)

lemma config_waitForNextMessage [simp]:
  "config (snd (waitForNextMessage timeout s)) = config s"
  by (simp add: waitForNextMessage_def resolve_def Let_def split: list.splits)

lemma waitingOn_unfailing:
  "waitingOn w (SendAwait mid) s \<Longrightarrow> w < nextWaiter s \<Longrightarrow> unfailing w s"
  by (simp add: waitingOn_def unfailing_def)

lemma sendMessageAndGetResponse_threw:
  assumes "sendMessageAndGetResponse messageText messageId now io s = (SendThrew e, s')"
  shows "(connect now io s = (Threw e, s') \<or> connect now io s = (Rejected e, s')) \<and>
         connectFailure e"
proof -
  have a: "sendWhenConnected messageText messageId t \<noteq> (SendThrew e, s')" for t
    by (auto simp: sendWhenConnected_def split: prod.splits)
  then have b: "sendAfterConnect messageText messageId t \<noteq> (SendThrew e, s')" for t
    by (simp add: sendAfterConnect_def)
  obtain r s0 where c: "connect now io s = (r, s0)" by (cases "connect now io s")
  from assms a have n: "\<not> socketConnected s"
    by (auto simp: sendMessageAndGetResponse_def)
  with assms c b have d: "r = Threw e \<and> s0 = s' \<or> r = Rejected e \<and> s0 = s'"
    by (cases r) (auto simp: sendMessageAndGetResponse_def)
  from c n have "r = Threw NotConfigured \<or> r = Threw NotIdentical \<or> (\<exists>x. r = Rejected (IoFailure x))
      \<or> (\<exists>k. r = Awaiting k)"
    by (auto simp: connect_def Let_def split: if_splits option.splits)
  with d have "connectFailure e" by (auto simp: connectFailure_def)
  with c d show ?thesis by auto
qed

text \<open>
  Claim C4 (timeout surfacing), at the input where the code departs from it. On an
  established session a caller waits for the next message, with the default timeout and an
  empty queue, so that a waiter is registered and its timer armed. Before the timer fires
  the agent is switched, which empties the waiter list without settling any promise. No
  reply arrives, and the timer fires. Its callback does not find its resolver in the list
  and takes the branch that only logs that the resolver ``was already processed'': the
  timer is spent, the waiter list is empty, and the promise of the caller is still pending,
  not rejected with the timeout error. In the same history the timer of a
  \<open>sendMessageAndGetResponse\<close> does settle its promise, with the error-shaped result.
\<close>

theorem waitForNext_orphaned:
  "timers waitingSession 0 = Some (WaitNext 90000) \<and>
   resolvers waitingSession = [(0, WaitNext 90000)] \<and>
   promises waitingSession 0 = Pending \<and>
   promises orphanedWait 0 = Pending \<and>
   timers orphanedWait 0 = None \<and>
   resolvers orphanedWait = [] \<and>
   promises switchedSend 0 = Fulfilled (errorResult (responseTimeoutMsg 90000 ''m1'') ''m1'')"
  by (simp add: waitingSession_def orphanedWait_def switchedSend_def demo_defs session_defs
      waitForNextMessage_def waitTimeoutOf_def switchAgent_def switchAgent_prepare_def
      fireTimer_def waitTimeoutFired_def responseTimeoutFired_def resolve_def reject_def
      sendMessageAndGetResponse_def sendWhenConnected_def sendAndRegister_def Let_def)

text \<open>Nothing that happens later settles the promise of that caller.\<close>

lemma orphanedWait_forever: "promises (steps later orphanedWait) 0 = Pending"
proof -
  have "retired 0 Pending orphanedWait"
    by (simp add: retired_def orphanedWait_def demo_defs session_defs
        waitForNextMessage_def waitTimeoutOf_def switchAgent_def switchAgent_prepare_def
        fireTimer_def waitTimeoutFired_def Let_def)
  then have "retired 0 Pending (steps later orphanedWait)" by (rule retired_steps)
  then show ?thesis by (simp add: retired_def)
qed

text \<open>
  Timeouts when only events come between registration and expiry. Let a call of
  \<open>sendMessageAndGetResponse\<close> (at once, or when resumed after its awaited \<open>connect()\<close>) have
  registered waiter \<open>w\<close>. If then any events are handled of which none is a valid reply and
  none is the timer of \<open>w\<close>, and the timer of \<open>w\<close> fires, the promise of the call is
  fulfilled, not rejected, with an error-shaped result: its \<open>error\<close> field is set and it has
  no \<open>text\<close>. Over any later history, of events and calls, that promise is never rejected.
  With only such events in between, the promise of a \<open>waitForNextMessage\<close> that found the
  queue empty is rejected with the timeout error naming the configured agent and the
  duration waited for. \<open>sendMessageAndGetResponse\<close> itself rejects only with the error of
  its \<open>connect()\<close>: a configuration error, a failure to create the socket, or (when resumed,
  in a reachable state) a connection timeout or exhausted reconnection.
\<close>

theorem timeout_surfacing:
  "((sendMessageAndGetResponse messageText messageId now io s = (SendAwaitsReply w, s1) \<or>
     sendResume messageText messageId k s = (SendAwaitsReply w, s1)) \<and>
    list_all (quiet s1 w) es \<longrightarrow>
      promises (handle (WaiterTimer w) (run es s1)) w =
        Fulfilled (errorResult (responseTimeoutMsg (responseTimeout (config s)) messageId)
                     messageId) \<and>
      error (errorResult (responseTimeoutMsg (responseTimeout (config s)) messageId) messageId)
        \<noteq> None \<and>
      text_m (errorResult (responseTimeoutMsg (responseTimeout (config s)) messageId) messageId)
        = None \<and>
      (\<forall>e. promises (steps later s1) w \<noteq> Failed e)) \<and>
   (waitForNextMessage timeout s = (v, s2) \<and> messageQueue s = [] \<and> list_all (quiet s2 v) es \<longrightarrow>
      promises (handle (WaiterTimer v) (run es s2)) v =
        Failed (WaitTimeout (agentId (config s)) (waitTimeoutOf timeout s))) \<and>
   (sendMessageAndGetResponse messageText messageId now io s = (SendThrew e, s3) \<longrightarrow>
      (connect now io s = (Threw e, s3) \<or> connect now io s = (Rejected e, s3)) \<and>
      connectFailure e) \<and>
   (s = steps hist (constructor p) \<and> sendResume messageText messageId k s = (SendThrew e, s3) \<longrightarrow>
      connPromises s k = Failed e \<and> connectFailure e)"
proof -
  have 1: "promises (handle (WaiterTimer w) (run es s1)) w =
        Fulfilled (errorResult (responseTimeoutMsg (responseTimeout (config s)) messageId)
                     messageId) \<and>
      (\<forall>e. promises (steps later s1) w \<noteq> Failed e)"
    if r: "sendMessageAndGetResponse messageText messageId now io s = (SendAwaitsReply w, s1) \<or>
           sendResume messageText messageId k s = (SendAwaitsReply w, s1)"
      and q: "list_all (quiet s1 w) es"
  proof -
    from r have a: "waitingOn w (SendAwait messageId) s1 \<and> config s1 = config s \<and>
                    w < nextWaiter s1"
      using sendMessageAndGetResponse_waiting sendResume_waiting by blast
    from a q have "waitingOn w (SendAwait messageId) (run es s1)"
      by (simp add: waitingOn_run)
    from expire_sendAwait [OF this] a have x: "promises (handle (WaiterTimer w) (run es s1)) w =
        Fulfilled (errorResult (responseTimeoutMsg (responseTimeout (config s)) messageId)
                     messageId)"
      by (simp add: handle_WaiterTimer)
    from a have "unfailing w s1" using waitingOn_unfailing by blast
    then have "unfailing w (steps later s1)" by (rule unfailing_steps)
    with x show ?thesis by (simp add: unfailing_def)
  qed
  have 2: "promises (handle (WaiterTimer v) (run es s2)) v =
        Failed (WaitTimeout (agentId (config s)) (waitTimeoutOf timeout s))"
    if "waitForNextMessage timeout s = (v, s2)" "messageQueue s = []" "list_all (quiet s2 v) es"
  proof -
    from waitForNextMessage_waiting [OF that(2,1)]
    have a: "waitingOn v (WaitNext (waitTimeoutOf timeout s)) s2" "config s2 = config s"
      by simp_all
    from a(1) that(3) have "waitingOn v (WaitNext (waitTimeoutOf timeout s)) (run es s2)"
      by (simp add: waitingOn_run)
    from expire_waitNext [OF this] a(2) show ?thesis
      by (simp add: handle_WaiterTimer)
  qed
  have 3: "(connect now io s = (Threw e, s3) \<or> connect now io s = (Rejected e, s3)) \<and>
      connectFailure e"
    if "sendMessageAndGetResponse messageText messageId now io s = (SendThrew e, s3)"
    using that by (rule sendMessageAndGetResponse_threw)
  have 4: "connPromises s k = Failed e \<and> connectFailure e"
    if h: "s = steps hist (constructor p)"
      and r: "sendResume messageText messageId k s = (SendThrew e, s3)"
  proof -
    have a: "sendWhenConnected messageText messageId t \<noteq> (SendThrew e, s3)" for t
      by (auto simp: sendWhenConnected_def split: prod.splits)
    then have b: "sendAfterConnect messageText messageId t \<noteq> (SendThrew e, s3)" for t
      by (simp add: sendAfterConnect_def)
    from r b have f: "connPromises s k = Failed e"
      by (cases "connPromises s k") (auto simp: sendResume_def)
    have "connInv s" unfolding h by (rule connInv_reachable)
    with f show ?thesis by (auto simp: connInv_def)
  qed
  from 1 2 3 4 show ?thesis by (simp only: errorResult_shape) blast
qed

theorem timeout_surfacing_witness:
  "sendMessageAndGetResponse ''ping'' ''m1'' 9 None demoSession =
     (SendAwaitsReply 0, sendingSession) \<and>
   list_all (quiet sendingSession 0) [MessageBroadcast 0 (reply ''Z'' ''x''), ConnectError 0] \<and>
   promises (handle (WaiterTimer 0)
               (run [MessageBroadcast 0 (reply ''Z'' ''x''), ConnectError 0] sendingSession)) 0 =
     Fulfilled (errorResult (responseTimeoutMsg 90000 ''m1'') ''m1'') \<and>
   waitForNextMessage None demoSession = (0, waitingSession) \<and> messageQueue demoSession = [] \<and>
   list_all (quiet waitingSession 0) [MessageBroadcast 0 (reply ''A'' '' '')] \<and>
   promises (handle (WaiterTimer 0)
               (run [MessageBroadcast 0 (reply ''A'' '' '')] waitingSession)) 0 =
     Failed (WaitTimeout ''A'' 90000) \<and>
   sendMessageAndGetResponse ''ping'' ''m1'' 9 None
       (constructor (demoConfig\<lparr>roomId_opt := Some ''B''\<rparr>)) =
     (SendThrew NotIdentical, constructor (demoConfig\<lparr>roomId_opt := Some ''B''\<rparr>)) \<and>
   connectFailure NotIdentical \<and>
   sendResume ''ping'' ''m1'' 0 timedOutSession =
     (SendThrew (ConnectionTimeout 120000), timedOutSession) \<and>
   connectFailure (ConnectionTimeout 120000)"
proof -
  have a: "sendMessageAndGetResponse ''ping'' ''m1'' 9 None demoSession =
     (SendAwaitsReply 0, sendingSession)"
    by (simp add: sendingSession_def sendMessageAndGetResponse_def sendWhenConnected_def
        sendAndRegister_def Let_def demo_defs session_defs)
  have cf: "config sendingSession = config demoSession"
    "config waitingSession = config demoSession"
    using sendMessageAndGetResponse_waiting [OF a]
    by (simp_all add: waitingSession_def demoSession_def)
  have ag: "config demoSession = config (constructor demoConfig)"
    by (simp add: demoSession_def)
  have b: "list_all (quiet sendingSession 0) [MessageBroadcast 0 (reply ''Z'' ''x''), ConnectError 0]"
    "list_all (quiet waitingSession 0) [MessageBroadcast 0 (reply ''A'' '' '')]"
    by (simp_all add: quiet_def validReply_def cf ag trim_def isWhite_def reply_def
        constructor_def demoConfig_def orEmpty_def)
  have mq: "messageQueue demoSession = []" "nextWaiter demoSession = 0"
    by (simp_all add: demo_defs session_defs)
  have "waitingSession = snd (waitForNextMessage None demoSession)"
    by (simp add: waitingSession_def demoSession_def)
  moreover have "fst (waitForNextMessage None demoSession) = 0"
    by (simp add: waitForNextMessage_def Let_def mq)
  ultimately have c: "waitForNextMessage None demoSession = (0, waitingSession)"
    "messageQueue demoSession = []"
    using mq by (simp_all add: prod_eq_iff)
  have d: "sendMessageAndGetResponse ''ping'' ''m1'' 9 None
       (constructor (demoConfig\<lparr>roomId_opt := Some ''B''\<rparr>)) =
     (SendThrew NotIdentical, constructor (demoConfig\<lparr>roomId_opt := Some ''B''\<rparr>))"
    by (simp add: sendMessageAndGetResponse_def demo_defs session_defs)
  have e: "sendResume ''ping'' ''m1'' 0 timedOutSession =
     (SendThrew (ConnectionTimeout 120000), timedOutSession)"
    by (simp add: sendResume_def demo_defs session_defs)
  have v: "responseTimeout (config demoSession) = 90000" "agentId (config demoSession) = ''A''"
    "waitTimeoutOf None demoSession = 90000"
    by (simp_all add: ag waitTimeoutOf_def constructor_def demoConfig_def orEmpty_def
        orDefault_def)
  from timeout_surfacing [of "''ping''" "''m1''" 9 None demoSession 0 sendingSession 0
      "[MessageBroadcast 0 (reply ''Z'' ''x''), ConnectError 0]" "[]" None 0 waitingSession]
    a b(1) v
  have 1: "promises (handle (WaiterTimer 0)
               (run [MessageBroadcast 0 (reply ''Z'' ''x''), ConnectError 0] sendingSession)) 0 =
     Fulfilled (errorResult (responseTimeoutMsg 90000 ''m1'') ''m1'')"
    by simp
  from timeout_surfacing [of "''ping''" "''m1''" 9 None demoSession 0 sendingSession 0
      "[MessageBroadcast 0 (reply ''A'' '' '')]" "[]" None 0 waitingSession]
    c b(2) v
  have 2: "promises (handle (WaiterTimer 0)
               (run [MessageBroadcast 0 (reply ''A'' '' '')] waitingSession)) 0 =
     Failed (WaitTimeout ''A'' 90000)"
    by simp
  from timeout_surfacing [of "''ping''" "''m1''" 9 None
      "constructor (demoConfig\<lparr>roomId_opt := Some ''B''\<rparr>)" _ _ _ _ _ _ _ _ NotIdentical
      "constructor (demoConfig\<lparr>roomId_opt := Some ''B''\<rparr>)"] d
  have 3: "connectFailure NotIdentical" by blast
  from timeout_surfacing [of "''ping''" "''m1''" _ _ timedOutSession _ _ 0 _ _ _ _ _
      "ConnectionTimeout 120000" timedOutSession
      "[CallConnect 0 None, Deliver (ConnectionTimer 0)]" demoConfig] e timedOutSession_def
  have 4: "connectFailure (ConnectionTimeout 120000)" by blast
  from a b c d e 1 2 3 4 show ?thesis by blast
qed

subsection \<open>Pairing by the drain loop\<close>

lemma drain_lists:
  "resolvers (drain s) = drop (length (messageQueue s)) (resolvers s) \<and>
   messageQueue (drain s) = drop (length (resolvers s)) (messageQueue s)"
proof (induction s rule: drain_cases)
  case (stop s)
  then show ?case by (auto simp: drain_stop)
next
  case (step s r rs m ms)
  then show ?case by (simp add: drain_step)
qed

lemma drain_pairs:
  assumes "wellFormed s" "i < length (resolvers s)" "i < length (messageQueue s)"
  shows "promises (drain s) (fst (resolvers s ! i)) = Fulfilled (messageQueue s ! i)"
  using assms
proof (induction s arbitrary: i rule: drain_cases)
  case (stop s)
  then show ?case by auto
next
  case (step s r rs m ms)
  let ?s1 = "callResolver r m (s\<lparr>resolvers := rs, messageQueue := ms\<rparr>)"
  have wf1: "wellFormed ?s1"
    using step.prems(1) step.hyps(1) by (rule wellFormed_callResolver)
  have e: "drain s = drain ?s1" using step.hyps by (simp add: drain_step)
  show ?case
  proof (cases i)
    case 0
    from wellFormedD(1) [OF step.prems(1)] step.hyps(1)
    have "fst r \<notin> fst ` set (resolvers ?s1)" by auto
    from drain_untouched [OF this]
    have "promises (drain ?s1) (fst r) = promises ?s1 (fst r)" by simp
    moreover have "promises s (fst r) = Pending"
      using wellFormedD(3) [OF step.prems(1), of "fst r" "snd r"] step.hyps(1) by simp
    ultimately show ?thesis
      using 0 step.hyps by (simp add: e callResolver_promises)
  next
    case (Suc j)
    with step.prems step.hyps have "j < length (resolvers ?s1)" "j < length (messageQueue ?s1)"
      by simp_all
    from step.IH [OF wf1 this] Suc step.hyps show ?thesis by (simp add: e)
  qed
qed

lemma messageQueue_send [simp]:
  "messageQueue (snd (sendAndRegister messageText messageId s)) = messageQueue s"
  "messageQueue (snd (sendWhenConnected messageText messageId s)) = messageQueue s"
  "messageQueue (snd (sendAfterConnect messageText messageId s)) = messageQueue s"
  by (simp_all add: sendAndRegister_def sendWhenConnected_def sendAfterConnect_def resolve_def
      emit_def Let_def case_prod_unfold split: option.splits)

lemma sendAndRegister_lists:
  assumes "socket s \<noteq> None"
  shows "sendAndRegister messageText messageId s =
           (nextWaiter s, snd (sendAndRegister messageText messageId s)) \<and>
         resolvers (snd (sendAndRegister messageText messageId s)) =
           resolvers s @ [(nextWaiter s, SendAwait messageId)]"
  using assms by (auto simp: sendAndRegister_def emit_def Let_def)

lemma sendAfterConnect_lists:
  assumes "sendAfterConnect messageText messageId s = (SendAwaitsReply w, s1)"
  shows "w = nextWaiter s \<and> messageQueue s1 = messageQueue s \<and>
         resolvers s1 = resolvers s @ [(w, SendAwait messageId)] \<and> sockets s1 = sockets s"
proof -
  from assms have c: "socketConnected s"
    and r: "sendWhenConnected messageText messageId s = (SendAwaitsReply w, s1)"
    by (auto simp: sendAfterConnect_def split: if_splits)
  from c have a: "socket s \<noteq> None" "socket (joinRoom s) \<noteq> None"
    by (auto simp: socketConnected_def joinRoom_def emit_def split: option.splits)
  have j: "sockets (joinRoom s) = sockets s"
    by (simp add: joinRoom_def emit_def split: option.splits)
  have k: "sockets (snd (sendAndRegister messageText messageId t)) = sockets t" for t
    by (simp add: sendAndRegister_def emit_def resolve_def Let_def split: option.splits)
  from r consider
    "sendAndRegister messageText messageId s = (w, s1)" |
    "sendAndRegister messageText messageId (joinRoom s) = (w, s1)"
    by (auto simp: sendWhenConnected_def split: if_splits prod.splits)
  then show ?thesis
  proof cases
    case 1
    with sendAndRegister_lists [OF a(1), of messageText messageId] k [of s]
      messageQueue_send(1) [of messageText messageId s]
    show ?thesis by simp
  next
    case 2
    with sendAndRegister_lists [OF a(2), of messageText messageId] k [of "joinRoom s"] j
      messageQueue_send(1) [of messageText messageId "joinRoom s"]
    show ?thesis by simp
  qed
qed

lemma sockets_connect: "sockets s \<le> sockets (snd (connect now io s))"
  by (simp add: connect_def handleError_def updateState_def Let_def split: option.splits)

lemma send_registered:
  assumes "sendMessageAndGetResponse messageText messageId now io s = (SendAwaitsReply w, s1) \<or>
           sendResume messageText messageId k s = (SendAwaitsReply w, s1)"
  shows "sendAfterConnect messageText messageId s = (SendAwaitsReply w, s1)"
  using assms
proof
  assume a: "sendMessageAndGetResponse messageText messageId now io s = (SendAwaitsReply w, s1)"
  show ?thesis
  proof (cases "socketConnected s")
    case True
    with a show ?thesis by (simp add: sendMessageAndGetResponse_def sendAfterConnect_def)
  next
    case False
    obtain r s0 where c: "connect now io s = (r, s0)" by (cases "connect now io s")
    with False have "(\<exists>x. r = Threw x) \<or> (\<exists>x. r = Rejected x) \<or> (\<exists>x. r = Awaiting x)"
      by (auto simp: connect_def Let_def split: if_splits option.splits)
    with a c False show ?thesis
      by (auto simp: sendMessageAndGetResponse_def)
  qed
next
  assume "sendResume messageText messageId k s = (SendAwaitsReply w, s1)"
  then show ?thesis by (simp add: sendResume_def split: promise.splits)
qed

text \<open>
  Claim C10 (send-and-await does not consult the queue), for every state \<open>s\<close> reached from a
  new session in which the queue holds a reply \<open>q\<close>. A call of \<open>sendMessageAndGetResponse\<close>
  that goes on to register its waiter \<open>w\<close> (at once, or resumed after its \<open>connect()\<close>)
  leaves the queue as it is and its promise pending: the queued reply does not resolve it.
  The promise stays pending through any events of which none is a valid reply nor its own
  timer. When the next valid reply arrives, the drain loop gives \<open>w\<close> the reply that is
  oldest in the queue when its turn comes: the reply at the position of \<open>w\<close> in the waiter
  list, which is \<open>q\<close> itself when no other waiter is ahead; when its timer fires first, it
  is fulfilled with the error-shaped result. \<open>waitForNextMessage\<close>, in the same state with
  no waiter pending, is fulfilled with \<open>q\<close> at once and takes it off the queue.
\<close>

theorem send_ignores_queue:
  assumes "s = steps hist (constructor p)" "messageQueue s = q # qs"
    and "sendMessageAndGetResponse messageText messageId now io s = (SendAwaitsReply w, s1) \<or>
         sendResume messageText messageId k s = (SendAwaitsReply w, s1)"
  shows
  "promises s1 w = Pending \<and> messageQueue s1 = q # qs \<and>
   resolvers s1 = resolvers s @ [(w, SendAwait messageId)] \<and>
   (list_all (quiet s1 w) es \<longrightarrow> promises (run es s1) w = Pending) \<and>
   (j < sockets s1 \<and> validReply s1 data \<and> length (resolvers s) \<le> length qs + 1 \<longrightarrow>
      promises (handle (MessageBroadcast j data) s1) w =
        Fulfilled ((q # qs @ [data]) ! length (resolvers s))) \<and>
   (j < sockets s1 \<and> validReply s1 data \<and> resolvers s = [] \<longrightarrow>
      promises (handle (MessageBroadcast j data) s1) w = Fulfilled q \<and>
      messageQueue (handle (MessageBroadcast j data) s1) = qs @ [data]) \<and>
   promises (handle (WaiterTimer w) s1) w =
     Fulfilled (errorResult (responseTimeoutMsg (responseTimeout (config s)) messageId)
                  messageId) \<and>
   (resolvers s = [] \<longrightarrow>
      promises (snd (waitForNextMessage timeout s)) (fst (waitForNextMessage timeout s)) =
        Fulfilled q \<and>
      messageQueue (snd (waitForNextMessage timeout s)) = qs)"
proof -
  have wf: "wellFormed s" unfolding assms(1) by (rule wellFormed_reachable)
  note reg = send_registered [OF assms(3)]
  from sendAfterConnect_waiting [OF reg]
  have wo: "waitingOn w (SendAwait messageId) s1" and cf: "config s1 = config s" by simp_all
  from sendAfterConnect_lists [OF reg] assms(2)
  have l: "w = nextWaiter s" "messageQueue s1 = q # qs"
    "resolvers s1 = resolvers s @ [(w, SendAwait messageId)]"
    by simp_all
  have wf1: "wellFormed s1"
    using wellFormed_sendAfterConnect [OF wf, of messageText messageId] reg by simp
  have 1: "promises s1 w = Pending" using wo by (simp add: waitingOn_def)
  have 4: "promises (run es s1) w = Pending" if "list_all (quiet s1 w) es"
    using waitingOn_run [OF wo that] by (simp add: waitingOn_def)
  have 5: "promises (handle (MessageBroadcast j data) s1) w =
        Fulfilled ((q # qs @ [data]) ! length (resolvers s))"
    if "j < sockets s1" "validReply s1 data" "length (resolvers s) \<le> length qs + 1"
  proof -
    let ?t = "s1\<lparr>messageQueue := messageQueue s1 @ [data]\<rparr>"
    have wft: "wellFormed ?t" using wf1 by (simp add: wellFormed_def)
    have i: "length (resolvers s) < length (resolvers ?t)"
      "length (resolvers s) < length (messageQueue ?t)"
      using l that(3) by simp_all
    from drain_pairs [OF wft i] l
    have "promises (drain ?t) w = Fulfilled ((q # qs @ [data]) ! length (resolvers s))"
      by (simp add: nth_append)
    with that(1,2) show ?thesis
      by (simp add: handle_def onMessageBroadcast_def notifyMessageListeners_def Let_def)
  qed
  have 6: "promises (handle (MessageBroadcast j data) s1) w = Fulfilled q \<and>
      messageQueue (handle (MessageBroadcast j data) s1) = qs @ [data]"
    if "j < sockets s1" "validReply s1 data" "resolvers s = []"
  proof -
    let ?t = "s1\<lparr>messageQueue := messageQueue s1 @ [data]\<rparr>"
    from 5 [OF that(1,2)] that(3)
    have a: "promises (handle (MessageBroadcast j data) s1) w = Fulfilled q" by simp
    from drain_lists [of ?t] l that(3) have "messageQueue (drain ?t) = qs @ [data]" by simp
    with that(1,2) a show ?thesis
      by (simp add: handle_def onMessageBroadcast_def notifyMessageListeners_def Let_def)
  qed
  have 7: "promises (handle (WaiterTimer w) s1) w =
     Fulfilled (errorResult (responseTimeoutMsg (responseTimeout (config s)) messageId)
                  messageId)"
    using expire_sendAwait [OF wo] cf by (simp add: handle_WaiterTimer)
  have 8: "promises (snd (waitForNextMessage timeout s)) (fst (waitForNextMessage timeout s)) =
        Fulfilled q \<and>
      messageQueue (snd (waitForNextMessage timeout s)) = qs"
    using assms(2) by (simp add: waitForNextMessage_def resolve_def Let_def)
  from 1 4 5 6 7 8 l show ?thesis by blast
qed


theorem send_ignores_queue_witness:
  "messageQueue backlogSession = [reply ''A'' ''old''] \<and> resolvers backlogSession = [] \<and>
   sendMessageAndGetResponse ''ping'' ''m1'' 9 None backlogSession =
     (SendAwaitsReply 0, queuedSend) \<and>
   list_all (quiet queuedSend 0) [ConnectError 0, MessageBroadcast 0 (reply ''Z'' ''x'')] \<and>
   0 < sockets queuedSend \<and>
   validReply queuedSend (reply ''A'' ''new'') \<and>
   promises queuedSend 0 = Pending \<and> messageQueue queuedSend = [reply ''A'' ''old''] \<and>
   promises (run [ConnectError 0, MessageBroadcast 0 (reply ''Z'' ''x'')] queuedSend) 0 =
     Pending \<and>
   promises (handle (MessageBroadcast 0 (reply ''A'' ''new'')) queuedSend) 0 =
     Fulfilled (reply ''A'' ''old'') \<and>
   messageQueue (handle (MessageBroadcast 0 (reply ''A'' ''new'')) queuedSend) =
     [reply ''A'' ''new''] \<and>
   promises (snd (waitForNextMessage None backlogSession))
     (fst (waitForNextMessage None backlogSession)) = Fulfilled (reply ''A'' ''old'')"
proof -
  have v: "validReply demoSession (reply ''A'' ''old'')"
    by (simp add: validReply_def trim_def isWhite_def reply_def demo_defs session_defs)
  have d: "resolvers demoSession = []" "messageQueue demoSession = []"
    "socketConnected demoSession" "roomJoined demoSession" "nextWaiter demoSession = 0"
    "sockets demoSession = 1"
    by (simp_all add: demo_defs session_defs)
  have "backlogSession = handle (MessageBroadcast 0 (reply ''A'' ''old'')) demoSession"
    by (simp add: backlogSession_def demoSession_def)
  then have b: "backlogSession = notifyMessageListeners (reply ''A'' ''old'') demoSession"
    using d(6) by (simp add: handle_def onMessageBroadcast_def)
  have q: "messageQueue backlogSession = [reply ''A'' ''old'']" "resolvers backlogSession = []"
    "socketConnected backlogSession" "roomJoined backlogSession" "nextWaiter backlogSession = 0"
    "sockets backlogSession = 1" "config backlogSession = config demoSession"
    using v d
    by (simp_all add: b notifyMessageListeners_def drain_stop Let_def socketConnected_def
        split: option.splits)
  have r: "sendMessageAndGetResponse ''ping'' ''m1'' 9 None backlogSession =
     (SendAwaitsReply 0, queuedSend)"
    using q(3,4,5)
    by (simp add: queuedSend_def sendMessageAndGetResponse_def sendWhenConnected_def
        sendAndRegister_def Let_def socketConnected_def emit_def split: option.splits)
  from sendMessageAndGetResponse_waiting [OF r] q(7)
  have cf: "config queuedSend = config demoSession" by simp
  have "sockets queuedSend = sockets backlogSession"
    using q(3,4)
    by (simp add: queuedSend_def sendMessageAndGetResponse_def sendWhenConnected_def
        sendAndRegister_def Let_def socketConnected_def emit_def split: option.splits)
  with q(6) have s: "0 < sockets queuedSend" by simp
  have "\<not> validReply demoSession (reply ''Z'' ''x'')"
    by (simp add: validReply_def reply_def demo_defs session_defs)
  then have u: "list_all (quiet queuedSend 0) [ConnectError 0, MessageBroadcast 0 (reply ''Z'' ''x'')]"
    by (simp add: quiet_def validReply_config [OF cf])
  have w: "validReply queuedSend (reply ''A'' ''new'')"
    unfolding validReply_config [OF cf]
    by (simp add: validReply_def trim_def isWhite_def reply_def demo_defs session_defs)
  note T = send_ignores_queue [OF backlogSession_def q(1) disjI1 [OF r],
      of "[ConnectError 0, MessageBroadcast 0 (reply ''Z'' ''x'')]" 0 "reply ''A'' ''new''" None]
  from T u have 1: "promises queuedSend 0 = Pending"
    "messageQueue queuedSend = [reply ''A'' ''old'']"
    "promises (run [ConnectError 0, MessageBroadcast 0 (reply ''Z'' ''x'')] queuedSend) 0 =
       Pending"
    by blast+
  from T s w q(2) have 2:
    "promises (handle (MessageBroadcast 0 (reply ''A'' ''new'')) queuedSend) 0 =
       Fulfilled (reply ''A'' ''old'')"
    "messageQueue (handle (MessageBroadcast 0 (reply ''A'' ''new'')) queuedSend) =
       [] @ [reply ''A'' ''new'']"
    by blast+
  from T q(2) have 3: "promises (snd (waitForNextMessage None backlogSession))
     (fst (waitForNextMessage None backlogSession)) = Fulfilled (reply ''A'' ''old'')"
    by blast
  from q(1,2) r u s w 1 2 3 show ?thesis by simp
qed

subsection \<open>FIFO correlation\<close>












end
